theory Spec2Isabelle
  imports Complex_Main "HOL-Library.AList"
begin

section \<open>Common conventions\<close>

text \<open>
  Python exceptions are values: a function that may raise returns \<open>error + 'a\<close>, with
  \<open>Inl\<close> the exception. A Python \<open>dict\<close> is an association list in insertion order
  (\<open>map_of\<close> looks a key up, \<open>AList.update\<close> stores a value: in place when the key is
  present, at the end otherwise, as a Python dict does). Python integers are \<open>int\<close>.
\<close>

datatype error =
    AssertionError
  | KeyError
  | ValueError
  | IndexError
  | TypeError
  | GitCommandError
  | TimeoutExpired
  | RegexError
  | FileNotFoundError
  | OtherError string

definition bind_err :: "error + 'a \<Rightarrow> ('a \<Rightarrow> error + 'b) \<Rightarrow> error + 'b" where
  "bind_err m f = (case m of Inl e \<Rightarrow> Inl e | Inr x \<Rightarrow> f x)"

text \<open>\<open>[f(x) for x in xs]\<close> where \<open>f\<close> may raise: the first exception stops the loop.\<close>

fun map_err :: "('a \<Rightarrow> error + 'b) \<Rightarrow> 'a list \<Rightarrow> error + 'b list" where
  "map_err f [] = Inr []"
| "map_err f (x # xs) =
     (case f x of
        Inl e \<Rightarrow> Inl e
      | Inr y \<Rightarrow> (case map_err f xs of Inl e \<Rightarrow> Inl e | Inr ys \<Rightarrow> Inr (y # ys)))"

section \<open>The diff model (d4j.py)\<close>

text \<open>
  A line of a unified diff as the unidiff library gives it: \<open>line_type\<close> is \<open>+\<close>, \<open>-\<close> or a
  blank, the line numbers are \<open>None\<close> on the side the line is absent from, and \<open>str(line)\<close> is
  the type character followed by the text.
\<close>

record line =
  line_type :: char
  source_line_no :: "int option"
  target_line_no :: "int option"
  line_value :: string

definition is_added :: "line \<Rightarrow> bool" where
  "is_added l = (line_type l = CHR ''+'')"

definition is_removed :: "line \<Rightarrow> bool" where
  "is_removed l = (line_type l = CHR ''-'')"

definition is_context :: "line \<Rightarrow> bool" where
  "is_context l = (line_type l = CHR '' '')"

definition str_line :: "line \<Rightarrow> string" where
  "str_line l = line_type l # line_value l"

record patched_file =
  source_file :: string
  hunks :: "line list list"
  is_modified_file :: bool

record change =
  start :: int
  removed_lines :: "string list"
  added_lines :: "string list"

record buggy_file =
  path :: string
  changes :: "change list"

record bug =
  buggy_files :: "buggy_file list"
  proj_path :: string

text \<open>
  Modelled from the spec: \<open>utils.line_consecutive\<close> is not among the sources. The spec:
  a line is consecutive with the previous one if its source/target line number is exactly
  one greater, within a run of same-type lines. Added lines are numbered on the target
  side, removed lines on the source side.
\<close>

definition line_consecutive :: "line \<Rightarrow> line \<Rightarrow> bool" where
  "line_consecutive lhs rhs =
     (if is_added lhs then
        is_added rhs \<and>
        (case (target_line_no lhs, target_line_no rhs) of
           (Some a, Some b) \<Rightarrow> a + 1 = b
         | _ \<Rightarrow> False)
      else if is_removed lhs then
        is_removed rhs \<and>
        (case (source_line_no lhs, source_line_no rhs) of
           (Some a, Some b) \<Rightarrow> a + 1 = b
         | _ \<Rightarrow> False)
      else False)"

text \<open>
  Modelled from the spec: \<open>utils.take_while_two\<close> is not among the sources. The spec: it
  consumes a sequence while each element individually satisfies the unary predicate and
  each consecutive pair satisfies the pairwise predicate, returning the consumed prefix
  and the remaining iterator. The remaining iterator starts with the first element that
  was refused.
\<close>

fun take_while_pairs :: "('a \<Rightarrow> bool) \<Rightarrow> ('a \<Rightarrow> 'a \<Rightarrow> bool) \<Rightarrow> 'a \<Rightarrow> 'a list \<Rightarrow> 'a list \<times> 'a list" where
  "take_while_pairs p q prev [] = ([], [])"
| "take_while_pairs p q prev (x # xs) =
     (if p x \<and> q prev x
      then (case take_while_pairs p q x xs of (ys, rest) \<Rightarrow> (x # ys, rest))
      else ([], x # xs))"

fun take_while_two :: "('a \<Rightarrow> bool) \<Rightarrow> ('a \<Rightarrow> 'a \<Rightarrow> bool) \<Rightarrow> 'a list \<Rightarrow> 'a list \<times> 'a list" where
  "take_while_two p q [] = ([], [])"
| "take_while_two p q (x # xs) =
     (if p x
      then (case take_while_pairs p q x xs of (ys, rest) \<Rightarrow> (x # ys, rest))
      else ([], x # xs))"

lemma take_while_pairs_append:
  "take_while_pairs p q prev xs = (ys, rest) \<Longrightarrow> ys @ rest = xs"
  by (induction xs arbitrary: prev ys rest) (auto split: if_splits prod.splits)

lemma take_while_two_append:
  "take_while_two p q xs = (ys, rest) \<Longrightarrow> ys @ rest = xs"
  by (cases xs) (auto split: if_splits prod.splits dest: take_while_pairs_append)

lemma take_while_two_length_rest:
  "take_while_two p q xs = (ys, rest) \<Longrightarrow> length rest \<le> length xs"
  by (drule take_while_two_append) auto

lemma take_while_two_added_step:
  "take_while_two (\<lambda>_. True) q (x # xs) = (ys, rest) \<Longrightarrow> length (tl rest) < Suc (length xs)"
proof -
  assume h: "take_while_two (\<lambda>_. True) q (x # xs) = (ys, rest)"
  then have "ys @ rest = x # xs" by (rule take_while_two_append)
  moreover from h have "ys \<noteq> []" by (auto split: prod.splits)
  ultimately have "length rest \<le> length xs" by (cases ys) auto
  then show ?thesis by (cases rest) auto
qed

lemma take_while_two_removed_step:
  assumes "take_while_two (\<lambda>_. True) q (x # xs) = (ys, rest)"
    and "take_while_two p' q' rest = (ys', rest')"
  shows "length (tl rest') < Suc (length xs)"
proof -
  have "ys @ rest = x # xs" using assms(1) by (rule take_while_two_append)
  moreover from assms(1) have "ys \<noteq> []" by (auto split: prod.splits)
  ultimately have "length rest \<le> length xs" by (cases ys) auto
  moreover have "length rest' \<le> length rest"
    using assms(2) by (rule take_while_two_length_rest)
  ultimately show ?thesis by (cases rest') auto
qed

text \<open>
  The computation of \<open>start\<close> and the \<open>Change\<close> appended for one run of lines
  (the part of the loop body of \<open>from_patch_file\<close> after the runs have been collected).
\<close>

definition make_change :: "bool \<Rightarrow> line \<Rightarrow> line list \<Rightarrow> line list \<Rightarrow> error + change" where
  "make_change reversed last_context removed0 added0 =
     (let removed = (if reversed then added0 else removed0);
          added = (if reversed then removed0 else added0)
      in bind_err
           (if length removed = 0 \<and> length added > 0 then
              (case (if reversed then target_line_no last_context
                     else source_line_no last_context) of
                 None \<Rightarrow> Inl TypeError
               | Some n \<Rightarrow> Inr (1 + n))
            else
              (case removed of
                 [] \<Rightarrow> Inl IndexError
               | r # _ \<Rightarrow>
                   (case (if reversed then target_line_no r else source_line_no r) of
                      None \<Rightarrow> Inl AssertionError
                    | Some n \<Rightarrow> Inr n)))
           (\<lambda>s. Inr \<lparr> start = s,
                      removed_lines = map (\<lambda>l. tl (str_line l)) removed,
                      added_lines = map (\<lambda>l. tl (str_line l)) added \<rparr>))"

text \<open>
  The \<open>while True\<close> loop of \<open>from_patch_file\<close>. The second argument is what is left of
  \<open>lines_iter\<close>; \<open>next(lines_iter)\<close> on the empty list is the \<open>StopIteration\<close> that ends
  the loop. \<open>take_while_two\<close> reads from \<open>lines_iter\<close> through \<open>itertools.chain\<close>, so the
  element it refused has been taken out of \<open>lines_iter\<close> as well: the loop goes on with
  the tail of the remaining iterator.
\<close>

function extract_changes :: "bool \<Rightarrow> line \<Rightarrow> line list \<Rightarrow> change list \<Rightarrow> error + change list" where
  "extract_changes reversed last_context [] chs = Inr chs"
| "extract_changes reversed last_context (start_line # lines_iter) chs =
     (if is_added start_line then
        (if \<not> is_context last_context then Inl AssertionError
         else
           (case take_while_two (\<lambda>_. True) line_consecutive (start_line # lines_iter) of
              (added, line_iter) \<Rightarrow>
                (case make_change reversed last_context [] added of
                   Inl e \<Rightarrow> Inl e
                 | Inr c \<Rightarrow>
                     extract_changes reversed last_context (tl line_iter) (chs @ [c]))))
      else if is_removed start_line then
        (if \<not> is_context last_context then Inl AssertionError
         else
           (case take_while_two (\<lambda>_. True) line_consecutive (start_line # lines_iter) of
              (removed, line_iter) \<Rightarrow>
                (case take_while_two is_added line_consecutive line_iter of
                   (added, line_iter') \<Rightarrow>
                     (case make_change reversed last_context removed added of
                        Inl e \<Rightarrow> Inl e
                      | Inr c \<Rightarrow>
                          extract_changes reversed last_context (tl line_iter')
                            (chs @ [c])))))
      else
        extract_changes reversed
          (if is_context start_line then start_line else last_context) lines_iter chs)"
  by pat_completeness auto
termination
proof (relation "measure (\<lambda>(r, lc, ls, cs). length ls)", goal_cases)
  case 1
  show ?case by simp
next
  case 2
  then show ?case
    by (auto simp del: take_while_two.simps dest: take_while_two_added_step [OF sym])
next
  case 3
  then show ?case
    by (auto simp del: take_while_two.simps dest: take_while_two_removed_step [OF sym sym])
next
  case 4
  show ?case by simp
qed

definition remove_prefix :: "string \<Rightarrow> string" where
  "remove_prefix diff_fname =
     (let prefixes = [''a/'', ''b/''];
          prefix = (case filter (\<lambda>p. take (length p) diff_fname = p) prefixes of
                      [] \<Rightarrow> ''''
                    | p # _ \<Rightarrow> p)
      in drop (length prefix) diff_fname)"

definition from_patch_file :: "bool \<Rightarrow> patched_file \<Rightarrow> error + buggy_file" where
  "from_patch_file reversed patch_file =
     (case concat (hunks patch_file) of
        [] \<Rightarrow> Inr \<lparr> path = remove_prefix (source_file patch_file), changes = [] \<rparr>
      | last_context # lines_iter \<Rightarrow>
          (case extract_changes reversed last_context lines_iter [] of
             Inl e \<Rightarrow> Inl e
           | Inr cs \<Rightarrow> Inr \<lparr> path = remove_prefix (source_file patch_file), changes = cs \<rparr>))"

section \<open>The outside world\<close>

text \<open>
  What the program does to the outside (git, the Defects4J command line, files) is a trace
  of events in the order they were issued. What the outside answers (a command's exit code
  and output, a file's content, an exception raised by a library call, the clock) is given
  by an environment whose answers may depend on the whole trace so far. The environment
  also holds the libraries whose code is not part of the repository: the Java parser and
  the regular expressions (\<open>re_compile\<close> gives the \<open>fullmatch\<close> predicate of a pattern, or
  nothing when the pattern does not compile).
\<close>

text \<open>\<open>RepairConfig\<close>: the field the sweep reads. The events are the library calls and
  commands of the checkout, the runs of the Defects4J command line (command, working
  directory, \<open>JAVA_HOME\<close>, timeout), the file writes, and the steps of the repair
  sweep.\<close>

record repair_config =
  bug_pattern :: string

datatype event =
    RepoOpen string
  | GitExecute string "string list"
  | RepoClose string
  | SubprocessRun "string list" "string option" "string option" "int option"
  | WriteFile string string
  | AppendFile string string
  | FixSeed int
  | DumpRepairConfig repair_config
  | SetChart11 bool
  | RepairBugNoCleanup repair_config string
  | CleanUp

type_synonym world = "event list"

datatype parse_outcome =
    Parsed
  | JavaSyntaxError string
  | LexerError string
  | UnexpectedException string string

record text_file =
  tf_path :: string
  content :: string
  cursor :: int

record env =
  raises :: "world \<Rightarrow> event \<Rightarrow> error option"
  completed :: "world \<Rightarrow> event \<Rightarrow> int \<times> string \<times> string"
  read_file :: "world \<Rightarrow> string \<Rightarrow> string option"
  perf_counter :: "world \<Rightarrow> real"
  javalang_parse :: "string \<Rightarrow> parse_outcome"
  re_compile :: "string \<Rightarrow> (string \<Rightarrow> bool) option"
  RULE :: string

text \<open>
  A computation takes the trace and returns its result, or the exception it raised, with
  the trace extended by what it issued. An operation that raises has been issued.
\<close>

type_synonym 'a io = "world \<Rightarrow> (error + 'a) \<times> world"

definition issue :: "env \<Rightarrow> event \<Rightarrow> (int \<times> string \<times> string) io" where
  "issue E ev w =
     (case raises E w ev of
        Some e \<Rightarrow> (Inl e, w @ [ev])
      | None \<Rightarrow> (Inr (completed E w ev), w @ [ev]))"

definition bind_io :: "'a io \<Rightarrow> ('a \<Rightarrow> 'b io) \<Rightarrow> 'b io" where
  "bind_io m f w = (case m w of (Inl e, w') \<Rightarrow> (Inl e, w') | (Inr x, w') \<Rightarrow> f x w')"

definition return_io :: "'a \<Rightarrow> 'a io" where
  "return_io x w = (Inr x, w)"

definition raise_io :: "error \<Rightarrow> 'a io" where
  "raise_io e w = (Inl e, w)"

section \<open>The benchmark interface (d4j.py)\<close>

text \<open>\<open>s.split(sep)\<close> for a one-character separator.\<close>

fun split_on :: "char \<Rightarrow> string \<Rightarrow> string list" where
  "split_on sep [] = [[]]"
| "split_on sep (c # cs) =
     (if c = sep then [] # split_on sep cs
      else (case split_on sep cs of
              [] \<Rightarrow> [[c]]
            | piece # pieces \<Rightarrow> (c # piece) # pieces))"

text \<open>\<open>p in s\<close> and \<open>s.startswith(p)\<close> on strings.\<close>

definition startswith :: "string \<Rightarrow> string \<Rightarrow> bool" where
  "startswith s p = (take (length p) s = p)"

fun contains :: "string \<Rightarrow> string \<Rightarrow> bool" where
  "contains [] p = (p = [])"
| "contains (c # cs) p = (startswith (c # cs) p \<or> contains cs p)"

text \<open>\<open>s.strip() == ""\<close>: every character of \<open>s\<close> is white space. A character is a code
  point below 256; the white space of Python's \<open>str\<close> among them is 9 to 13, 28 to 32, 133
  (next line) and 160 (no-break space).\<close>

definition is_space :: "char \<Rightarrow> bool" where
  "is_space c = (of_char c \<in> {9, 10, 11, 12, 13, 28, 29, 30, 31, 32, 133, 160 :: nat})"

definition strip_is_empty :: "string \<Rightarrow> bool" where
  "strip_is_empty s = list_all is_space s"

text \<open>\<open>pathlib\<close>'s \<open>/\<close> on relative components.\<close>

definition path_join :: "string \<Rightarrow> string \<Rightarrow> string" where
  "path_join a b = a @ ''/'' @ b"

text \<open>
  One entry of \<open>self.metadata\<close> (the fields the modelled code reads), and the object
  \<open>Defects4J\<close>. \<open>_get_metadata\<close> reads the benchmark's CSV files and
  \<open>PatchSet.from_filename\<close> parses a patch file: both are inputs here.
\<close>

record checkout_meta =
  meta_proj :: string
  meta_bug_id :: string
  meta_path :: string

record defects4j =
  d4j_home :: string
  d4j_checkout_root :: string
  java8_home :: string
  metadata :: "checkout_meta list"
  all_bugs :: "(string \<times> bug) list"
  single_hunk_bugs :: "(string \<times> bug) list"
  single_line_bugs :: "(string \<times> bug) list"

definition d4j_executable_of :: "string \<Rightarrow> string" where
  "d4j_executable_of home =
     path_join (path_join (path_join home ''framework'') ''bin'') ''defects4j''"

definition d4j_executable :: "defects4j \<Rightarrow> string" where
  "d4j_executable d = d4j_executable_of (d4j_home d)"

definition split_bug_id :: "string \<Rightarrow> error + (string \<times> string)" where
  "split_bug_id bug_id =
     (case split_on CHR ''-'' bug_id of
        [proj, id_str] \<Rightarrow> Inr (proj, id_str)
      | _ \<Rightarrow> Inl ValueError)"

definition bug_id_of :: "checkout_meta \<Rightarrow> string" where
  "bug_id_of m = meta_proj m @ ''-'' @ meta_bug_id m"

definition buggy_files_of ::
  "(string \<Rightarrow> error + patched_file list) \<Rightarrow> string \<Rightarrow> checkout_meta \<Rightarrow> error + buggy_file list" where
  "buggy_files_of patch_set_from_filename home m =
     (let patch_file =
            path_join (path_join (path_join (path_join (path_join home ''framework'')
              ''projects'') (meta_proj m)) ''patches'') (meta_bug_id m @ ''.src.patch'')
      in case patch_set_from_filename patch_file of
           Inl e \<Rightarrow> Inl e
         | Inr patch_set \<Rightarrow>
             map_err (from_patch_file True) (filter is_modified_file patch_set))"

text \<open>The dict comprehension of \<open>_all_bugs\<close>: a later entry with the same key replaces
  the value of the earlier one.\<close>

fun all_bugs_from ::
  "(string \<Rightarrow> error + patched_file list) \<Rightarrow> string \<Rightarrow> checkout_meta list \<Rightarrow> (string \<times> bug) list
     \<Rightarrow> error + (string \<times> bug) list" where
  "all_bugs_from ps home [] acc = Inr acc"
| "all_bugs_from ps home (m # ms) acc =
     (case buggy_files_of ps home m of
        Inl e \<Rightarrow> Inl e
      | Inr fs \<Rightarrow>
          all_bugs_from ps home ms
            (AList.update (bug_id_of m) \<lparr> buggy_files = fs, proj_path = meta_path m \<rparr> acc))"

definition Defects4J_init ::
  "(string \<Rightarrow> bool) \<Rightarrow> (string \<Rightarrow> error + patched_file list) \<Rightarrow> checkout_meta list
     \<Rightarrow> string \<Rightarrow> string \<Rightarrow> string \<Rightarrow> error + defects4j" where
  "Defects4J_init path_exists ps md home checkout_root java8 =
     (if \<not> path_exists home then Inl AssertionError
      else if \<not> path_exists (d4j_executable_of home) then Inl AssertionError
      else if \<not> path_exists java8 then Inl AssertionError
      else if \<not> path_exists checkout_root then Inl AssertionError
      else
        (case all_bugs_from ps home md [] of
           Inl e \<Rightarrow> Inl e
         | Inr bugs \<Rightarrow>
             (let hunk_bugs =
                    filter (\<lambda>(i, b). length (buggy_files b) = 1
                                      \<and> length (changes (buggy_files b ! 0)) = 1) bugs;
                  line_bugs =
                    filter (\<lambda>(i, b). length (added_lines (changes (buggy_files b ! 0) ! 0)) = 1)
                      hunk_bugs
              in Inr \<lparr> d4j_home = home, d4j_checkout_root = checkout_root, java8_home = java8,
                       metadata = md, all_bugs = bugs, single_hunk_bugs = hunk_bugs,
                       single_line_bugs = line_bugs \<rparr>)))"

definition git_reset :: "string list" where
  "git_reset = [''git'', ''checkout'', ''HEAD'', ''-f'', ''.'']"

definition git_clean :: "string list" where
  "git_clean = [''git'', ''clean'', ''-xfd'']"

definition d4j_checkout_cmd :: "defects4j \<Rightarrow> string \<Rightarrow> string \<Rightarrow> bool \<Rightarrow> string \<Rightarrow> string list" where
  "d4j_checkout_cmd d proj id_str buggy bug_proj_path =
     [d4j_executable d, ''checkout'', ''-p'', proj,
      ''-v'' @ id_str @ (if buggy then ''b'' else ''f''), ''-w'', bug_proj_path]"

definition checkout :: "env \<Rightarrow> defects4j \<Rightarrow> string \<Rightarrow> bool \<Rightarrow> unit io" where
  "checkout E d bug_id buggy =
     (case map_of (all_bugs d) bug_id of
        None \<Rightarrow> raise_io KeyError
      | Some b \<Rightarrow>
          (let bug_proj_path = proj_path b in
           case split_bug_id bug_id of
             Inl e \<Rightarrow> raise_io e
           | Inr (proj, id_str) \<Rightarrow>
               bind_io (issue E (RepoOpen bug_proj_path)) (\<lambda>_.
               bind_io (issue E (GitExecute bug_proj_path git_reset)) (\<lambda>_.
               bind_io (issue E (SubprocessRun
                          (d4j_checkout_cmd d proj id_str buggy bug_proj_path) None None None)) (\<lambda>_.
               bind_io (issue E (GitExecute bug_proj_path git_reset)) (\<lambda>_.
               bind_io (issue E (GitExecute bug_proj_path git_clean)) (\<lambda>_.
               bind_io (issue E (RepoClose bug_proj_path)) (\<lambda>_.
               return_io ()))))))))"

text \<open>Lines of a diff, for concrete patches.\<close>

definition context_line :: "int \<Rightarrow> int \<Rightarrow> string \<Rightarrow> line" where
  "context_line s t v =
     \<lparr> line_type = CHR '' '', source_line_no = Some s, target_line_no = Some t, line_value = v \<rparr>"

definition removed_line :: "int \<Rightarrow> string \<Rightarrow> line" where
  "removed_line s v =
     \<lparr> line_type = CHR ''-'', source_line_no = Some s, target_line_no = None, line_value = v \<rparr>"

definition added_line :: "int \<Rightarrow> string \<Rightarrow> line" where
  "added_line t v =
     \<lparr> line_type = CHR ''+'', source_line_no = None, target_line_no = Some t, line_value = v \<rparr>"

text \<open>A concrete benchmark with one bug, whose patch replaces one line by one line.\<close>

definition example_patch :: patched_file where
  "example_patch =
     \<lparr> source_file = ''a/src/Foo.java'',
       hunks = [[context_line 9 9 ''c'', removed_line 10 ''fixed'', added_line 10 ''buggy'',
                 context_line 11 11 ''d'']],
       is_modified_file = True \<rparr>"

definition example_metadata :: "checkout_meta list" where
  "example_metadata = [\<lparr> meta_proj = ''Lang'', meta_bug_id = ''1'', meta_path = ''/co/Lang-1'' \<rparr>]"

definition example_bug :: bug where
  "example_bug =
     \<lparr> buggy_files =
         [\<lparr> path = ''src/Foo.java'',
            changes = [\<lparr> start = 10, removed_lines = [''buggy''], added_lines = [''fixed''] \<rparr>] \<rparr>],
       proj_path = ''/co/Lang-1'' \<rparr>"

definition example_d4j :: defects4j where
  "example_d4j =
     \<lparr> d4j_home = ''/d4j'', d4j_checkout_root = ''/co'', java8_home = ''/jdk'',
       metadata = example_metadata,
       all_bugs = [(''Lang-1'', example_bug)],
       single_hunk_bugs = [(''Lang-1'', example_bug)],
       single_line_bugs = [(''Lang-1'', example_bug)] \<rparr>"

text \<open>An environment in which nothing raises, every command exits with code 0 and prints
  nothing, every candidate text parses, and the one pattern known is \<open>.*\<close>, which matches
  the strings without a newline.\<close>

definition quiet_env :: env where
  "quiet_env =
     \<lparr> raises = (\<lambda>w ev. None),
       completed = (\<lambda>w ev. (0, '''', '''')),
       read_file = (\<lambda>w p. Some ''''),
       perf_counter = (\<lambda>w. real (length w)),
       javalang_parse = (\<lambda>s. Parsed),
       re_compile = (\<lambda>p. if p = ''.*'' then Some (\<lambda>s. CHR 0x0A \<notin> set s) else None),
       RULE = ''----'' \<rparr>"

text \<open>The first change of the first file of a bug, for the bugs of the derived sets.\<close>

definition first_change :: "bug \<Rightarrow> change" where
  "first_change b = changes (buggy_files b ! 0) ! 0"

section \<open>The repair sweep (repair.py)\<close>






text \<open>The bug ids for which the per-bug repair procedure was invoked, in order.\<close>

fun invoked_repairs :: "world \<Rightarrow> string list" where
  "invoked_repairs [] = []"
| "invoked_repairs (RepairBugNoCleanup config bug_id # evs) = bug_id # invoked_repairs evs"
| "invoked_repairs (ev # evs) = invoked_repairs evs"




section \<open>Text buffers and hunk removal (repair.py)\<close>

text \<open>Python's \<open>xs[i]\<close> and \<open>xs[a:b]\<close>: a negative index counts from the end, an index
  out of range raises, a slice is clipped to the sequence.\<close>

definition py_index :: "'a list \<Rightarrow> int \<Rightarrow> error + 'a" where
  "py_index xs i =
     (if 0 \<le> i \<and> i < int (length xs) then Inr (xs ! nat i)
      else if i < 0 \<and> - int (length xs) \<le> i then Inr (xs ! nat (int (length xs) + i))
      else Inl IndexError)"

definition clip_index :: "'a list \<Rightarrow> int \<Rightarrow> nat" where
  "clip_index xs i =
     (let n = int (length xs)
      in nat (if i < 0 then max 0 (n + i) else min i n))"

definition py_slice :: "'a list \<Rightarrow> int \<Rightarrow> int \<Rightarrow> 'a list" where
  "py_slice xs a b = drop (clip_index xs a) (take (clip_index xs b) xs)"

definition endswith_newline :: "string \<Rightarrow> bool" where
  "endswith_newline s = (s \<noteq> [] \<and> last s = CHR 0x0A)"

text \<open>\<open>sep.join(pieces)\<close>, the inverse of \<open>split\<close>.\<close>

fun join :: "char \<Rightarrow> string list \<Rightarrow> string" where
  "join sep [] = []"
| "join sep [piece] = piece"
| "join sep (piece # pieces) = piece @ sep # join sep pieces"

text \<open>
  Modelled from the spec: the class \<open>TextFile\<close> (lsp/text.py) is not among the sources.
  The spec: \<open>form_index(line, col)\<close> converts a position to an offset assuming it lies
  within current content bounds; \<open>refine_index(line, col)\<close> is a clamped version tolerant
  of positions at line boundaries; \<open>change(edits)\<close> applies an ordered list of range
  replacements, each range given as (line, column) pairs; \<open>move_cursor(offset)\<close>
  repositions the cursor. Lines are the pieces of the content between newlines, numbered
  from 0. Outside the bounds the spec does not say what \<open>form_index\<close> does; here it
  raises.
\<close>

definition tf_lines :: "text_file \<Rightarrow> string list" where
  "tf_lines tf = split_on (CHR 0x0A) (content tf)"

definition form_index :: "text_file \<Rightarrow> int \<Rightarrow> int \<Rightarrow> error + int" where
  "form_index tf line_no col =
     (let ls = tf_lines tf
      in if 0 \<le> line_no \<and> line_no < int (length ls)
            \<and> 0 \<le> col \<and> col \<le> int (length (ls ! nat line_no))
         then Inr (sum_list (map (\<lambda>l. int (length l) + 1) (take (nat line_no) ls)) + col)
         else Inl IndexError)"

definition refine_index :: "text_file \<Rightarrow> int \<Rightarrow> int \<Rightarrow> int \<times> int" where
  "refine_index tf line_no col =
     (let ls = tf_lines tf
      in if line_no < 0 then (0, 0)
         else if int (length ls) \<le> line_no
         then (int (length ls) - 1, int (length (last ls)))
         else (line_no, min (max col 0) (int (length (ls ! nat line_no)))))"

record document_change =
  change_text :: string
  range_start :: "int \<times> int"
  range_end :: "int \<times> int"

fun tf_change :: "text_file \<Rightarrow> document_change list \<Rightarrow> error + text_file" where
  "tf_change tf [] = Inr tf"
| "tf_change tf (c # cs) =
     (case form_index tf (fst (range_start c)) (snd (range_start c)) of
        Inl e \<Rightarrow> Inl e
      | Inr s \<Rightarrow>
          (case form_index tf (fst (range_end c)) (snd (range_end c)) of
             Inl e \<Rightarrow> Inl e
           | Inr e \<Rightarrow>
               tf_change
                 (tf \<lparr> content := py_slice (content tf) 0 s @ change_text c
                                    @ py_slice (content tf) e (int (length (content tf))) \<rparr>)
                 cs))"

definition move_cursor :: "text_file \<Rightarrow> int \<Rightarrow> text_file" where
  "move_cursor tf offset = tf \<lparr> cursor := offset \<rparr>"

text \<open>\<open>remove_buggy_hunk\<close> returns the prefix and the suffix, and the text file as it
  has modified it.\<close>

definition remove_buggy_hunk :: "text_file \<Rightarrow> change \<Rightarrow> error + ((string \<times> string) \<times> text_file)" where
  "remove_buggy_hunk tf c =
     (let start0 = start c - 1;
          end0 = start0 + int (length (removed_lines c));
          start_pos = refine_index tf start0 0;
          end_pos = refine_index tf end0 0
      in case form_index tf start0 0 of
           Inl e \<Rightarrow> Inl e
         | Inr start_index \<Rightarrow>
             (case form_index tf end0 0 of
                Inl e \<Rightarrow> Inl e
              | Inr end_index \<Rightarrow>
                  (let prefix_start = 0;
                       suffix_end = int (length (content tf));
                       prefix = py_slice (content tf) prefix_start start_index;
                       suffix = CHR 0x0A # py_slice (content tf) end_index suffix_end
                   in case tf_change tf
                             [\<lparr> change_text = [CHR 0x0A],
                                range_start = start_pos, range_end = end_pos \<rparr>] of
                        Inl e \<Rightarrow> Inl e
                      | Inr tf1 \<Rightarrow>
                          (let tf2 = move_cursor tf1 start_index
                           in if \<not> endswith_newline prefix then Inl AssertionError
                              else
                                (case py_index (content tf2) (cursor tf2 - 1) of
                                   Inl e \<Rightarrow> Inl e
                                 | Inr c_before \<Rightarrow>
                                     if c_before \<noteq> CHR 0x0A then Inl AssertionError
                                     else
                                       (case py_index (content tf2) (cursor tf2) of
                                          Inl e \<Rightarrow> Inl e
                                        | Inr at_cursor \<Rightarrow>
                                            if at_cursor \<noteq> CHR 0x0A then Inl AssertionError
                                            else Inr ((prefix, suffix), tf2)))))))"

text \<open>The text of lines with their newlines.\<close>

definition with_newlines :: "string list \<Rightarrow> string" where
  "with_newlines ls = concat (map (\<lambda>l. l @ [CHR 0x0A]) ls)"

definition example_text_file :: text_file where
  "example_text_file =
     \<lparr> tf_path = ''/co/Lang-1/src/Foo.java'',
       content = ''a'' @ [CHR 0x0A] @ ''bb'' @ [CHR 0x0A] @ ''ccc'' @ [CHR 0x0A] @ ''d'' @ [CHR 0x0A],
       cursor = 0 \<rparr>"

section \<open>The results data model and the transformation (runner.py)\<close>

text \<open>
  The result types are declared outside the sources; the records hold the fields the
  runner reads. An averaged synthesis result carries \<open>result.hunk\<close>, the synthesized
  text, or \<open>None\<close> when the synthesis was not successful. A synthesis batch is of a type
  \<open>'b\<close> left open, and its method \<open>to_average_results\<close> is a parameter \<open>tar\<close> of the
  functions that call it.
\<close>

record synthesis_outcome =
  hunk :: "string option"

record avg_synthesis_result =
  result :: synthesis_outcome

record buggy_hunk =
  bh_file :: text_file
  bh_start :: int
  bh_end :: int

record 'b hunk_repair_result =
  buggy_hunk :: buggy_hunk
  results :: "'b list"

record avg_file_patch =
  fp_hunks :: "avg_synthesis_result list"
  fp_bug :: text_file
  buggy_hunk_indices :: "(int \<times> int) list"

record avg_patch =
  file_patches :: "avg_file_patch list"
  is_duplicate :: bool

record repair_transformed_result =
  result_dict :: "(string \<times> avg_patch list) list"
  all_appeared :: "(string \<times> string set) list"

text \<open>\<open>len(set(xs))\<close>.\<close>

definition len_set :: "'a list \<Rightarrow> nat" where
  "len_set xs = length (remdups xs)"

text \<open>\<open>zip(*xss)\<close>: the tuples of the elements at the same position, as many as the
  shortest list has; none when there is no list.\<close>

definition zip_star :: "'a list list \<Rightarrow> 'a list list" where
  "zip_star xss =
     (case xss of
        [] \<Rightarrow> []
      | xs # rest \<Rightarrow>
          map (\<lambda>i. map (\<lambda>ys. ys ! i) xss) [0..<fold min (map length rest) (length xs)])"

text \<open>The first loop of \<open>iter_files\<close>: per file, per hunk, the averaged results of all
  its batches, each paired with the hunk.\<close>

definition iter_files_groups ::
  "('b \<Rightarrow> avg_synthesis_result list) \<Rightarrow> 'b hunk_repair_result list list
     \<Rightarrow> (avg_synthesis_result \<times> buggy_hunk) list list list" where
  "iter_files_groups tar file_results =
     map (\<lambda>hunk_results.
            map (\<lambda>hunk_result.
                   concat (map (\<lambda>tagged_result.
                                  map (\<lambda>avg_result. (avg_result, buggy_hunk hunk_result))
                                    (tar tagged_result))
                             (results hunk_result)))
              hunk_results)
       file_results"

text \<open>The three assertions on a group.\<close>

definition group_ok :: "(avg_synthesis_result \<times> buggy_hunk) list list \<Rightarrow> bool" where
  "group_ok g =
     (length g > 0
      \<and> len_set (map length g) = 1
      \<and> len_set (map (\<lambda>t. tf_path (bh_file (snd t))) (concat g)) = 1)"

text \<open>The body of the inner loop over \<open>file_groups\<close>: one file patch from the results
  of one rank for the hunks of one file. \<open>bug\<close> is the file of the last hunk.\<close>

definition make_file_patch :: "(avg_synthesis_result \<times> buggy_hunk) list \<Rightarrow> error + avg_file_patch" where
  "make_file_patch file_group =
     (if \<not> length file_group > 0 then Inl AssertionError
      else Inr \<lparr> fp_hunks = map fst file_group,
                 fp_bug = bh_file (snd (last file_group)),
                 buggy_hunk_indices = map (\<lambda>t. (bh_start (snd t), bh_end (snd t))) file_group \<rparr>)"

definition iter_files ::
  "('b \<Rightarrow> avg_synthesis_result list) \<Rightarrow> 'b hunk_repair_result list list
     \<Rightarrow> error + avg_file_patch list list" where
  "iter_files tar file_results =
     (let groups = iter_files_groups tar file_results
      in if \<not> list_all group_ok groups then Inl AssertionError
         else map_err (\<lambda>file_groups.
                         if \<not> length file_groups > 0 then Inl AssertionError
                         else map_err make_file_patch file_groups)
                (zip_star (map zip_star groups)))"

text \<open>\<open>d.setdefault(k, default)\<close>: the value and the dict.\<close>

definition setdefault :: "'k \<Rightarrow> 'v \<Rightarrow> ('k \<times> 'v) list \<Rightarrow> 'v \<times> ('k \<times> 'v) list" where
  "setdefault k dflt d =
     (case map_of d k of
        Some v \<Rightarrow> (v, d)
      | None \<Rightarrow> (dflt, d @ [(k, dflt)]))"

definition any_hunk_is_None :: "avg_file_patch list \<Rightarrow> bool" where
  "any_hunk_is_None patch =
     list_ex (\<lambda>file. list_ex (\<lambda>h. hunk (result h) = None) (fp_hunks file)) patch"

definition concat_hunk_str :: "avg_file_patch list \<Rightarrow> string" where
  "concat_hunk_str patch =
     concat (map the (concat (map (\<lambda>file_patch. map (\<lambda>hunk_patch. hunk (result hunk_patch))
                                                  (fp_hunks file_patch)) patch)))"

text \<open>The loop over \<open>enumerate(iter_files(files))\<close>, from index \<open>patch_idx\<close> on, with the
  list \<open>patches\<close> and the set \<open>appeared\<close> it updates.\<close>

fun transform_patches ::
  "nat \<Rightarrow> avg_file_patch list list \<Rightarrow> avg_patch list \<times> string set
     \<Rightarrow> avg_patch list \<times> string set" where
  "transform_patches patch_idx [] (patches, appeared) = (patches, appeared)"
| "transform_patches patch_idx (patch # rest) (patches, appeared) =
     (if patch_idx < length patches
      then transform_patches (Suc patch_idx) rest (patches, appeared)
      else if any_hunk_is_None patch
      then transform_patches (Suc patch_idx) rest
             (patches @ [\<lparr> file_patches = patch, is_duplicate = False \<rparr>], appeared)
      else if concat_hunk_str patch \<in> appeared
      then transform_patches (Suc patch_idx) rest
             (patches @ [\<lparr> file_patches = patch, is_duplicate = True \<rparr>], appeared)
      else transform_patches (Suc patch_idx) rest
             (patches @ [\<lparr> file_patches = patch, is_duplicate = False \<rparr>],
              insert (concat_hunk_str patch) appeared))"

text \<open>The body of the loop over the bugs of the raw result.\<close>

definition transform_bug ::
  "('b \<Rightarrow> avg_synthesis_result list) \<Rightarrow> string \<times> 'b hunk_repair_result list list
     \<Rightarrow> repair_transformed_result \<Rightarrow> error + repair_transformed_result" where
  "transform_bug tar entry t =
     (case entry of (bug_id, files) \<Rightarrow>
        (case setdefault bug_id [] (result_dict t) of (patches, result_dict1) \<Rightarrow>
           (case setdefault bug_id {} (all_appeared t) of (appeared, all_appeared1) \<Rightarrow>
              (case iter_files tar files of
                 Inl e \<Rightarrow> Inl e
               | Inr candidates \<Rightarrow>
                   (case transform_patches 0 candidates (patches, appeared) of
                      (patches', appeared') \<Rightarrow>
                        Inr \<lparr> result_dict = AList.update bug_id patches' result_dict1,
                              all_appeared = AList.update bug_id appeared' all_appeared1 \<rparr>)))))"

fun transform_bugs ::
  "('b \<Rightarrow> avg_synthesis_result list) \<Rightarrow> (string \<times> 'b hunk_repair_result list list) list
     \<Rightarrow> repair_transformed_result \<Rightarrow> error + repair_transformed_result" where
  "transform_bugs tar [] t = Inr t"
| "transform_bugs tar (entry # entries) t =
     (case transform_bug tar entry t of
        Inl e \<Rightarrow> Inl e
      | Inr t' \<Rightarrow> transform_bugs tar entries t')"

datatype outcome = ParseError | CompilationError | TestingError | Success

record patch_validation_result =
  outcome :: outcome
  time_cost :: real
  stdout :: string
  stderr :: string

record validation_config =
  val_bug_pattern :: string
  n_cores :: nat

record validation_result =
  validation_configs :: "validation_config list"
  val_result_dict :: "(string \<times> (nat \<times> nat \<times> patch_validation_result) list) list"

text \<open>The fields of \<open>Report\<close> the runner works on. \<open>report.save()\<close> writes the report to
  disk; persistence is outside the model.\<close>

record 'b report =
  repair_result :: "(string \<times> 'b hunk_repair_result list list) list"
  transformed_result :: "repair_transformed_result option"
  validation_result :: "validation_result option"

definition transform ::
  "('b \<Rightarrow> avg_synthesis_result list) \<Rightarrow> 'b report \<Rightarrow> error + 'b report" where
  "transform tar rep =
     (let t0 = (case transformed_result rep of
                  None \<Rightarrow> \<lparr> result_dict = [], all_appeared = [] \<rparr>
                | Some t \<Rightarrow> t)
      in case transform_bugs tar (repair_result rep) t0 of
           Inl e \<Rightarrow> Inl e
         | Inr t \<Rightarrow> Inr (rep \<lparr> transformed_result := Some t \<rparr>))"

text \<open>
  Modelled from the spec: the property \<open>AvgPatch.is_broken\<close> is declared outside the
  sources. The spec: a broken patch is a candidate patch containing at least one hunk
  whose generation did not successfully complete, that is, a hunk without synthesized
  text.
\<close>

definition is_broken :: "avg_patch \<Rightarrow> bool" where
  "is_broken p = any_hunk_is_None (file_patches p)"

text \<open>The patches and the seen texts a transformed result holds for a bug (none when the
  bug has no entry).\<close>

definition patches_in :: "repair_transformed_result \<Rightarrow> string \<Rightarrow> avg_patch list" where
  "patches_in t bug_id = (case map_of (result_dict t) bug_id of None \<Rightarrow> [] | Some ps \<Rightarrow> ps)"

definition appeared_in :: "repair_transformed_result \<Rightarrow> string \<Rightarrow> string set" where
  "appeared_in t bug_id = (case map_of (all_appeared t) bug_id of None \<Rightarrow> {} | Some a \<Rightarrow> a)"

definition patches_of :: "'b report \<Rightarrow> string \<Rightarrow> avg_patch list" where
  "patches_of rep bug_id =
     (case transformed_result rep of None \<Rightarrow> [] | Some t \<Rightarrow> patches_in t bug_id)"

definition appeared_of :: "'b report \<Rightarrow> string \<Rightarrow> string set" where
  "appeared_of rep bug_id =
     (case transformed_result rep of None \<Rightarrow> {} | Some t \<Rightarrow> appeared_in t bug_id)"

text \<open>
  What deduplication means for the candidates \<open>cands\<close> of a bug, in rank order, when the
  first \<open>length patches\<close> of them have been processed: each processed candidate is
  recorded under its rank; it is marked duplicate exactly when all its hunks have text and
  an earlier candidate, all of whose hunks have text, has the same concatenated text; and
  the seen set is the set of the concatenated texts of the processed candidates all of
  whose hunks have text.
\<close>

definition dup_flag :: "avg_file_patch list list \<Rightarrow> nat \<Rightarrow> bool" where
  "dup_flag cands i =
     (\<not> any_hunk_is_None (cands ! i)
      \<and> (\<exists>j<i. \<not> any_hunk_is_None (cands ! j)
                \<and> concat_hunk_str (cands ! j) = concat_hunk_str (cands ! i)))"

definition seen_texts :: "avg_file_patch list list \<Rightarrow> nat \<Rightarrow> string set" where
  "seen_texts cands n =
     {s. \<exists>i<n. \<not> any_hunk_is_None (cands ! i) \<and> s = concat_hunk_str (cands ! i)}"

definition dedup_consistent ::
  "avg_file_patch list list \<Rightarrow> avg_patch list \<Rightarrow> string set \<Rightarrow> bool" where
  "dedup_consistent cands patches appeared =
     (length patches \<le> length cands
      \<and> map file_patches patches = take (length patches) cands
      \<and> (\<forall>i<length patches. is_duplicate (patches ! i) = dup_flag cands i)
      \<and> appeared = seen_texts cands (length patches))"

text \<open>A concrete report: one bug, one file, one hunk, four candidates with the texts
  \<open>x\<close>, none, \<open>x\<close> and \<open>y\<close>.\<close>

definition avg :: "string option \<Rightarrow> avg_synthesis_result" where
  "avg h = \<lparr> result = \<lparr> hunk = h \<rparr> \<rparr>"

definition example_buggy_hunk :: buggy_hunk where
  "example_buggy_hunk = \<lparr> bh_file = example_text_file, bh_start = 2, bh_end = 9 \<rparr>"

definition example_raw :: "(string \<times> avg_synthesis_result list hunk_repair_result list list) list" where
  "example_raw =
     [(''Lang-1'',
       [[\<lparr> buggy_hunk = example_buggy_hunk,
           results = [[avg (Some ''x'')], [avg None], [avg (Some ''x'')], [avg (Some ''y'')]] \<rparr>]])]"

definition example_report :: "avg_synthesis_result list report" where
  "example_report =
     \<lparr> repair_result = example_raw, transformed_result = None, validation_result = None \<rparr>"

definition example_candidate :: "string option \<Rightarrow> avg_file_patch list" where
  "example_candidate h =
     [\<lparr> fp_hunks = [avg h], fp_bug = example_text_file, buggy_hunk_indices = [(2, 9)] \<rparr>]"

definition example_candidates :: "avg_file_patch list list" where
  "example_candidates =
     [example_candidate (Some ''x''), example_candidate None,
      example_candidate (Some ''x''), example_candidate (Some ''y'')]"

definition example_transformed :: repair_transformed_result where
  "example_transformed =
     \<lparr> result_dict =
         [(''Lang-1'',
           [\<lparr> file_patches = example_candidate (Some ''x''), is_duplicate = False \<rparr>,
            \<lparr> file_patches = example_candidate None, is_duplicate = False \<rparr>,
            \<lparr> file_patches = example_candidate (Some ''x''), is_duplicate = True \<rparr>,
            \<lparr> file_patches = example_candidate (Some ''y''), is_duplicate = False \<rparr>])],
       all_appeared = [(''Lang-1'', {''x'', ''y''})] \<rparr>"

text \<open>A transformed result holds, for the entry of a bug in the raw result, a patch for
  every candidate and a seen set.\<close>

definition fully_transformed ::
  "('b \<Rightarrow> avg_synthesis_result list) \<Rightarrow> repair_transformed_result
     \<Rightarrow> string \<times> 'b hunk_repair_result list list \<Rightarrow> bool" where
  "fully_transformed tar t entry =
     (\<exists>cands patches appeared.
        iter_files tar (snd entry) = Inr cands
        \<and> map_of (result_dict t) (fst entry) = Some patches
        \<and> map_of (all_appeared t) (fst entry) = Some appeared
        \<and> length cands \<le> length patches)"

section \<open>Validation scheduling (runner.py)\<close>

text \<open>
  Modelled from the spec: \<open>utils.chunked\<close> is not among the sources. The spec: it splits a
  sequence into fixed-size groups, the last of which may be shorter. For the size 0 the
  spec does not say what it does; here it gives no group.
\<close>

function chunked :: "nat \<Rightarrow> 'a list \<Rightarrow> 'a list list" where
  "chunked n xs = (if n = 0 \<or> xs = [] then [] else take n xs # chunked n (drop n xs))"
  by pat_completeness auto
termination
  by (relation "measure (\<lambda>(n, xs). length xs)") auto

text \<open>\<open>itertools.zip_longest(*xss)\<close>: the tuples of the elements at the same position, as
  many as the longest list has, with \<open>None\<close> where a list has ended.\<close>

definition zip_longest :: "'a list list \<Rightarrow> 'a option list list" where
  "zip_longest xss =
     map (\<lambda>i. map (\<lambda>xs. if i < length xs then Some (xs ! i) else None) xss)
       [0..<fold max (map length xss) 0]"

type_synonym work_item = "string \<times> nat \<times> avg_patch"

type_synonym validation_dict = "(string \<times> (nat \<times> nat \<times> patch_validation_result) list) list"

definition transform_if_not_performed ::
  "('b \<Rightarrow> avg_synthesis_result list) \<Rightarrow> 'b report \<Rightarrow> error + 'b report" where
  "transform_if_not_performed tar rep =
     (if transformed_result rep = None then transform tar rep else Inr rep)"

text \<open>The inner loop of the first loop of \<open>validate\<close>: the items of one bug.\<close>

definition unvalidated_items ::
  "string \<Rightarrow> avg_patch list \<Rightarrow> (nat \<times> nat \<times> patch_validation_result) list \<Rightarrow> work_item list" where
  "unvalidated_items bug_id patches validated_patches =
     map (\<lambda>(patch_idx, patch). (bug_id, patch_idx, patch))
       (filter (\<lambda>(patch_idx, patch).
                  \<not> is_duplicate patch \<and> \<not> is_broken patch
                  \<and> map_of validated_patches patch_idx = None)
          (enumerate 0 patches))"

text \<open>The first loop of \<open>validate\<close>, over the bugs of the transformed result.\<close>

fun collect_unvalidated ::
  "(string \<Rightarrow> bool) \<Rightarrow> (string \<times> avg_patch list) list \<Rightarrow> validation_dict
     \<Rightarrow> work_item list list \<Rightarrow> work_item list list \<times> validation_dict" where
  "collect_unvalidated fullmatch [] vd acc = (acc, vd)"
| "collect_unvalidated fullmatch ((bug_id, patches) # rest) vd acc =
     (if \<not> fullmatch bug_id then collect_unvalidated fullmatch rest vd acc
      else (case setdefault bug_id [] vd of
              (validated_patches, vd') \<Rightarrow>
                collect_unvalidated fullmatch rest vd'
                  (acc @ [unvalidated_items bug_id patches validated_patches])))"

text \<open>\<open>filter(lambda r: r is not None, zipped_result)\<close> for the round \<open>j\<close>.\<close>

definition round_items :: "nat \<Rightarrow> 'a list list \<Rightarrow> 'a list" where
  "round_items j xss =
     map the (filter (\<lambda>r. r \<noteq> None)
                (map (\<lambda>xs. if j < length xs then Some (xs ! j) else None) xss))"

text \<open>The batches the two nested \<open>for\<close> loops go through, in order.\<close>

definition result_batches :: "nat \<Rightarrow> work_item list list \<Rightarrow> work_item list list" where
  "result_batches n unvalidated =
     concat (map (\<lambda>zipped_result. chunked n (map the (filter (\<lambda>r. r \<noteq> None) zipped_result)))
               (zip_longest unvalidated))"

text \<open>The loop that records the results of one batch.\<close>

fun record_results ::
  "nat \<Rightarrow> (work_item \<times> patch_validation_result) list \<Rightarrow> validation_dict
     \<Rightarrow> error + validation_dict" where
  "record_results val_config_idx [] vd = Inr vd"
| "record_results val_config_idx (((bug_id, val_idx, p), val_result) # rest) vd =
     (case map_of vd bug_id of
        None \<Rightarrow> Inl AssertionError
      | Some validated \<Rightarrow>
          if map_of validated val_idx \<noteq> None then Inl AssertionError
          else record_results val_config_idx rest
                 (AList.update bug_id
                    (AList.update val_idx (val_config_idx, val_result) validated) vd))"

text \<open>
  The loop over the batches. \<open>dispatch\<close> stands for the parallel run of \<open>validate_patch\<close>
  on the items of a batch: it gives the results in order, or the exception of a worker.
  The first component is the list of the batches that were dispatched to the pool.
\<close>

fun validate_batches ::
  "(work_item list \<Rightarrow> error + patch_validation_result list) \<Rightarrow> nat \<Rightarrow> work_item list list
     \<Rightarrow> validation_dict \<Rightarrow> work_item list list \<times> (error + validation_dict)" where
  "validate_batches dispatch val_config_idx [] vd = ([], Inr vd)"
| "validate_batches dispatch val_config_idx (result_batch # rest) vd =
     (if length result_batch \<noteq> len_set (map fst result_batch) then ([], Inl AssertionError)
      else (case dispatch result_batch of
              Inl e \<Rightarrow> ([result_batch], Inl e)
            | Inr val_results \<Rightarrow>
                (case record_results val_config_idx (zip result_batch val_results) vd of
                   Inl e \<Rightarrow> ([result_batch], Inl e)
                 | Inr vd' \<Rightarrow>
                     (case validate_batches dispatch val_config_idx rest vd' of
                        (dispatched, r) \<Rightarrow> (result_batch # dispatched, r)))))"

definition validate ::
  "env \<Rightarrow> ('b \<Rightarrow> avg_synthesis_result list)
     \<Rightarrow> (work_item list \<Rightarrow> error + patch_validation_result list)
     \<Rightarrow> validation_config \<Rightarrow> 'b report \<Rightarrow> work_item list list \<times> (error + 'b report)" where
  "validate E tar dispatch config rep =
     (case transform_if_not_performed tar rep of
        Inl e \<Rightarrow> ([], Inl e)
      | Inr rep1 \<Rightarrow>
          (case re_compile E (val_bug_pattern config) of
             None \<Rightarrow> ([], Inl RegexError)
           | Some fullmatch \<Rightarrow>
               (case transformed_result rep1 of
                  None \<Rightarrow> ([], Inl AssertionError)
                | Some transformed \<Rightarrow>
                    (let vr0 = (case validation_result rep1 of
                                  None \<Rightarrow> \<lparr> validation_configs = [], val_result_dict = [] \<rparr>
                                | Some v \<Rightarrow> v);
                         configs = validation_configs vr0 @ [config];
                         val_config_idx = length configs - 1
                     in case collect_unvalidated fullmatch (result_dict transformed)
                               (val_result_dict vr0) [] of
                          (unvalidated, vd1) \<Rightarrow>
                            (case validate_batches dispatch val_config_idx
                                    (result_batches (n_cores config) unvalidated) vd1 of
                               (dispatched, Inl e) \<Rightarrow> (dispatched, Inl e)
                             | (dispatched, Inr vd2) \<Rightarrow>
                                 (dispatched,
                                  Inr (rep1 \<lparr> validation_result :=
                                         Some \<lparr> validation_configs = configs,
                                                val_result_dict = vd2 \<rparr> \<rparr>)))))))"

text \<open>Whether a rank of a bug has a validation result in a report.\<close>

definition validated_in :: "'b report \<Rightarrow> string \<Rightarrow> nat \<Rightarrow> bool" where
  "validated_in rep bug_id patch_idx =
     (case validation_result rep of
        None \<Rightarrow> False
      | Some v \<Rightarrow>
          (case map_of (val_result_dict v) bug_id of
             None \<Rightarrow> False
           | Some validated \<Rightarrow> map_of validated patch_idx \<noteq> None))"

definition lookup_validated ::
  "validation_dict \<Rightarrow> string \<Rightarrow> (nat \<times> nat \<times> patch_validation_result) list" where
  "lookup_validated vd bug_id = (case map_of vd bug_id of None \<Rightarrow> [] | Some d \<Rightarrow> d)"

text \<open>A concrete report for validation: the transformed result of the example with a second
  bug that has one candidate, no validation result yet, two cores, and a pool in which
  every validation succeeds.\<close>

definition example_validation_report :: "avg_synthesis_result list report" where
  "example_validation_report =
     \<lparr> repair_result = example_raw,
       transformed_result =
         Some (example_transformed
                 \<lparr> result_dict := result_dict example_transformed @
                     [(''Lang-2'',
                       [\<lparr> file_patches = example_candidate (Some ''z''),
                          is_duplicate = False \<rparr>])] \<rparr>),
       validation_result = None \<rparr>"

definition example_validation_config :: validation_config where
  "example_validation_config = \<lparr> val_bug_pattern = ''.*'', n_cores = 2 \<rparr>"

definition example_dispatch :: "work_item list \<Rightarrow> error + patch_validation_result list" where
  "example_dispatch batch =
     Inr (map (\<lambda>it. \<lparr> outcome = Success, time_cost = 1, stdout = '''', stderr = '''' \<rparr>) batch)"

definition example_batches :: "work_item list list" where
  "example_batches =
     [[(''Lang-1'', 0, \<lparr> file_patches = example_candidate (Some ''x''), is_duplicate = False \<rparr>),
       (''Lang-2'', 0, \<lparr> file_patches = example_candidate (Some ''z''), is_duplicate = False \<rparr>)],
      [(''Lang-1'', 3, \<lparr> file_patches = example_candidate (Some ''y''), is_duplicate = False \<rparr>)]]"

section \<open>Validation of one patch (d4j.py, runner.py)\<close>

text \<open>\<open>Defects4J.compile\<close>, \<open>test_with_option\<close> and \<open>test\<close>. A file that does not exist
  reads as \<open>None\<close>. A test run that exceeds its timeout raises \<open>TimeoutExpired\<close>, as the
  environment decides.\<close>

definition compile :: "env \<Rightarrow> defects4j \<Rightarrow> string \<Rightarrow> (bool \<times> string \<times> string) io" where
  "compile E d bug_id =
     (case map_of (all_bugs d) bug_id of
        None \<Rightarrow> raise_io KeyError
      | Some b \<Rightarrow>
          bind_io (issue E (SubprocessRun [d4j_executable d, ''compile'']
                              (Some (proj_path b)) (Some (java8_home d)) None))
            (\<lambda>(returncode, out, err).
               (let success = (returncode = 0)
                in if \<not> (if success then \<not> contains err ''FAIL'' else contains err ''FAIL'')
                   then raise_io AssertionError
                   else return_io (success, out, err))))"

definition test_with_option ::
  "env \<Rightarrow> defects4j \<Rightarrow> string \<Rightarrow> int \<Rightarrow> bool \<Rightarrow> (bool \<times> string \<times> string) io" where
  "test_with_option E d bug_id timeout entire_test_suite =
     (case map_of (all_bugs d) bug_id of
        None \<Rightarrow> raise_io KeyError
      | Some b \<Rightarrow>
          bind_io (issue E (SubprocessRun
                              ([d4j_executable d, ''test'']
                                 @ (if entire_test_suite then [] else [''-r'']))
                              (Some (proj_path b)) (Some (java8_home d)) (Some timeout)))
            (\<lambda>(returncode, out, err) w.
               (case read_file E w (path_join (proj_path b) ''failing_tests'') of
                  None \<Rightarrow> (Inl AssertionError, w)
                | Some failing \<Rightarrow>
                    (let success = strip_is_empty failing;
                         failing_test_0 = ''Failing tests: 0''
                     in if \<not> (if success then startswith out failing_test_0
                               else \<not> startswith out failing_test_0)
                        then (Inl AssertionError, w)
                        else (Inr (success, out, err), w)))))"

definition test :: "env \<Rightarrow> defects4j \<Rightarrow> string \<Rightarrow> int \<Rightarrow> (bool \<times> string \<times> string) io" where
  "test E d bug_id timeout =
     bind_io (test_with_option E d bug_id timeout False)
       (\<lambda>(success, out, err).
          if \<not> success then return_io (success, out, err)
          else test_with_option E d bug_id timeout True)"

text \<open>
  \<open>validate_patch\<close>. \<open>AvgFilePatch.compute_patch\<close> is declared outside the sources: it is
  the parameter \<open>compute_patch\<close>, which gives the candidate file or \<open>None\<close>. The first loop
  materializes the candidate files.
\<close>

fun materialize ::
  "(avg_file_patch \<Rightarrow> text_file option) \<Rightarrow> env \<Rightarrow> world \<Rightarrow> avg_file_patch list
     \<Rightarrow> error + text_file list" where
  "materialize compute_patch E w [] = Inr []"
| "materialize compute_patch E w (patch_file # rest) =
     (case compute_patch patch_file of
        None \<Rightarrow> Inl AssertionError
      | Some patch_text_file \<Rightarrow>
          if read_file E w (tf_path patch_text_file) = None then Inl AssertionError
          else (case materialize compute_patch E w rest of
                  Inl e \<Rightarrow> Inl e
                | Inr patch_files \<Rightarrow> Inr (patch_text_file # patch_files)))"

text \<open>\<open>patch_text_file.write()\<close>, and the note left for an exception of the parser that is
  neither a syntax error nor a lexer error.\<close>

definition write_file :: "text_file \<Rightarrow> event" where
  "write_file f = WriteFile (tf_path f) (content f)"

definition log_unexpected :: "string \<Rightarrow> string \<Rightarrow> event" where
  "log_unexpected ty msg = AppendFile ''unexpected_exception'' (ty @ [CHR 0x0A] @ msg)"

text \<open>The second loop: parse each candidate file, then write it. The result is the
  \<open>ParseError\<close> returned from inside the loop, or \<open>None\<close> when the loop ends.\<close>

fun parse_and_write :: "env \<Rightarrow> real \<Rightarrow> text_file list \<Rightarrow> patch_validation_result option io" where
  "parse_and_write E start_time [] = return_io None"
| "parse_and_write E start_time (f # fs) =
     (case javalang_parse E (content f) of
        JavaSyntaxError msg \<Rightarrow>
          (\<lambda>w. (Inr (Some \<lparr> outcome = ParseError, time_cost = perf_counter E w - start_time,
                             stdout = '''', stderr = msg \<rparr>), w))
      | LexerError msg \<Rightarrow>
          (\<lambda>w. (Inr (Some \<lparr> outcome = ParseError, time_cost = perf_counter E w - start_time,
                             stdout = '''', stderr = msg \<rparr>), w))
      | UnexpectedException ty msg \<Rightarrow>
          bind_io (issue E (log_unexpected ty msg)) (\<lambda>_.
          bind_io (issue E (write_file f)) (\<lambda>_.
          parse_and_write E start_time fs))
      | Parsed \<Rightarrow>
          bind_io (issue E (write_file f)) (\<lambda>_.
          parse_and_write E start_time fs))"

definition compile_and_test :: "env \<Rightarrow> defects4j \<Rightarrow> string \<Rightarrow> real \<Rightarrow> patch_validation_result io" where
  "compile_and_test E d bug_id start_time =
     bind_io (compile E d bug_id)
       (\<lambda>(comp_success, comp_stdout, comp_stderr) w.
          if \<not> comp_success
          then (Inr \<lparr> outcome = CompilationError, time_cost = perf_counter E w - start_time,
                      stdout = comp_stdout, stderr = comp_stderr \<rparr>, w)
          else (case test E d bug_id 180 w of
                  (Inr (val_success, val_stdout, val_stderr), w') \<Rightarrow>
                    (Inr \<lparr> outcome = (if val_success then Success else TestingError),
                           time_cost = perf_counter E w' - start_time,
                           stdout = comp_stdout @ RULE E @ val_stdout,
                           stderr = comp_stderr @ RULE E @ val_stderr \<rparr>, w')
                | (Inl TimeoutExpired, w') \<Rightarrow>
                    (Inr \<lparr> outcome = TestingError,
                           time_cost = perf_counter E w' - start_time,
                           stdout = comp_stdout @ RULE E @ ''Timeout'',
                           stderr = comp_stderr @ RULE E @ ''Timeout'' \<rparr>, w')
                | (Inl e, w') \<Rightarrow> (Inl e, w')))"

definition validate_patch ::
  "(avg_file_patch \<Rightarrow> text_file option) \<Rightarrow> env \<Rightarrow> defects4j \<Rightarrow> string \<Rightarrow> avg_patch
     \<Rightarrow> patch_validation_result io" where
  "validate_patch compute_patch E d bug_id patch w =
     (let start_time = perf_counter E w
      in if is_duplicate patch then (Inl AssertionError, w)
         else (case materialize compute_patch E w (file_patches patch) of
                 Inl e \<Rightarrow> (Inl e, w)
               | Inr patch_files \<Rightarrow>
                   if len_set (map tf_path patch_files) \<noteq> 1 then (Inl AssertionError, w)
                   else bind_io (checkout E d bug_id False) (\<lambda>_.
                        bind_io (parse_and_write E start_time patch_files) (\<lambda>returned.
                        (case returned of
                           Some res \<Rightarrow> return_io res
                         | None \<Rightarrow> compile_and_test E d bug_id start_time))) w))"

text \<open>For the statements: the events of a checkout, the error text of a candidate file
  that the parser refuses with a syntax or lexer error, the first such text among the
  files, the events of the second loop for files it does not refuse, the commands that
  compile or test, and the writes to files.\<close>

definition checkout_events :: "defects4j \<Rightarrow> string \<Rightarrow> bool \<Rightarrow> event list" where
  "checkout_events d bug_id buggy =
     (case map_of (all_bugs d) bug_id of
        None \<Rightarrow> []
      | Some b \<Rightarrow>
          (case split_bug_id bug_id of
             Inl e \<Rightarrow> []
           | Inr (proj, id_str) \<Rightarrow>
               [RepoOpen (proj_path b),
                GitExecute (proj_path b) git_reset,
                SubprocessRun (d4j_checkout_cmd d proj id_str buggy (proj_path b)) None None None,
                GitExecute (proj_path b) git_reset,
                GitExecute (proj_path b) git_clean,
                RepoClose (proj_path b)]))"

definition recognized_error :: "env \<Rightarrow> text_file \<Rightarrow> string option" where
  "recognized_error E f =
     (case javalang_parse E (content f) of
        JavaSyntaxError msg \<Rightarrow> Some msg
      | LexerError msg \<Rightarrow> Some msg
      | _ \<Rightarrow> None)"

fun first_recognized_error :: "env \<Rightarrow> text_file list \<Rightarrow> string option" where
  "first_recognized_error E [] = None"
| "first_recognized_error E (f # fs) =
     (case recognized_error E f of Some msg \<Rightarrow> Some msg | None \<Rightarrow> first_recognized_error E fs)"

definition write_events :: "env \<Rightarrow> text_file list \<Rightarrow> event list" where
  "write_events E fs =
     concat (map (\<lambda>f. (case javalang_parse E (content f) of
                          UnexpectedException ty msg \<Rightarrow> [log_unexpected ty msg]
                        | _ \<Rightarrow> [])
                       @ [write_file f]) fs)"

fun is_compile_or_test :: "event \<Rightarrow> bool" where
  "is_compile_or_test (SubprocessRun cmd cwd java timeout) =
     (case cmd of exe # sub # args \<Rightarrow> sub = ''compile'' \<or> sub = ''test'' | _ \<Rightarrow> False)"
| "is_compile_or_test ev = False"

fun is_file_write :: "event \<Rightarrow> bool" where
  "is_file_write (WriteFile p c) = True"
| "is_file_write (AppendFile p c) = True"
| "is_file_write ev = False"

text \<open>The candidate files before the first one the parser refuses with a syntax or lexer
  error.\<close>

definition accepted_prefix :: "env \<Rightarrow> text_file list \<Rightarrow> text_file list" where
  "accepted_prefix E fs = takeWhile (\<lambda>f. recognized_error E f = None) fs"

definition candidate_files :: "(avg_file_patch \<Rightarrow> text_file option) \<Rightarrow> avg_patch \<Rightarrow> text_file list" where
  "candidate_files compute_patch patch = map (\<lambda>pf. the (compute_patch pf)) (file_patches patch)"

text \<open>Concrete runs: a candidate file is the buggy file with the synthesized texts as its
  content; the parser refuses the text \<open>bad\<close>; compilation fails; the tests time out.\<close>

definition example_compute_patch :: "avg_file_patch \<Rightarrow> text_file option" where
  "example_compute_patch pf =
     (if list_ex (\<lambda>h. hunk (result h) = None) (fp_hunks pf) then None
      else Some ((fp_bug pf) \<lparr> content := concat (map (\<lambda>h. the (hunk (result h))) (fp_hunks pf)) \<rparr>))"

definition env_parse_error :: env where
  "env_parse_error =
     quiet_env \<lparr> javalang_parse := (\<lambda>s. if s = ''bad'' then JavaSyntaxError ''no'' else Parsed) \<rparr>"

definition env_compile_fails :: env where
  "env_compile_fails = quiet_env \<lparr> completed := (\<lambda>w ev. (1, ''out'', ''FAIL'')) \<rparr>"

definition env_timeout :: env where
  "env_timeout =
     quiet_env \<lparr> raises := (\<lambda>w ev. case ev of
                                     SubprocessRun cmd cwd java (Some t) \<Rightarrow> Some TimeoutExpired
                                   | _ \<Rightarrow> None) \<rparr>"

definition example_patch_of :: "string list \<Rightarrow> avg_patch" where
  "example_patch_of texts =
     \<lparr> file_patches = concat (map (\<lambda>s. example_candidate (Some s)) texts),
       is_duplicate = False \<rparr>"

definition example_checkout_events :: "event list" where
  "example_checkout_events =
     [RepoOpen ''/co/Lang-1'',
      GitExecute ''/co/Lang-1'' [''git'', ''checkout'', ''HEAD'', ''-f'', ''.''],
      SubprocessRun [''/d4j/framework/bin/defects4j'', ''checkout'', ''-p'', ''Lang'',
                     ''-v1f'', ''-w'', ''/co/Lang-1''] None None None,
      GitExecute ''/co/Lang-1'' [''git'', ''checkout'', ''HEAD'', ''-f'', ''.''],
      GitExecute ''/co/Lang-1'' [''git'', ''clean'', ''-xfd''],
      RepoClose ''/co/Lang-1'']"

section \<open>Properties\<close>

subsection \<open>Hunk extraction\<close>

lemma is_context_not_changed: "is_context l \<Longrightarrow> \<not> is_added l \<and> \<not> is_removed l"
  by (simp add: is_context_def is_added_def is_removed_def)

lemma extract_changes_skip_context:
  "\<forall>l \<in> set cs. is_context l \<Longrightarrow>
   extract_changes rv lc (cs @ rest) chs = extract_changes rv (last (lc # cs)) rest chs"
proof (induction cs arbitrary: lc)
  case Nil
  show ?case by simp
next
  case (Cons c cs)
  then have c: "is_context c" and cs: "\<forall>l \<in> set cs. is_context l" by simp_all
  have "extract_changes rv lc ((c # cs) @ rest) chs = extract_changes rv c (cs @ rest) chs"
    using c by (simp add: is_context_not_changed)
  also have "\<dots> = extract_changes rv (last (c # cs)) rest chs"
    by (rule Cons.IH [OF cs])
  finally show ?case by simp
qed

lemma extract_changes_only_context:
  "\<forall>l \<in> set cs. is_context l \<Longrightarrow> extract_changes rv lc cs chs = Inr chs"
  using extract_changes_skip_context [of cs rv lc "[]" chs] by simp

lemma take_added_then_context:
  "is_added a \<Longrightarrow> \<forall>l \<in> set post. is_context l \<Longrightarrow>
   take_while_two is_added line_consecutive (a # post) = ([a], post)"
  by (cases post) (auto simp: is_context_not_changed)

lemma take_two_removed:
  assumes "is_removed r1" "source_line_no r1 = Some 10"
    and "is_removed r2" "source_line_no r2 = Some 11" and "is_added a"
  shows "take_while_two (\<lambda>_. True) line_consecutive (r1 # r2 # a # post) = ([r1, r2], a # post)"
  using assms by (auto simp: line_consecutive_def is_added_def is_removed_def)

lemma last_context: "pre \<noteq> [] \<Longrightarrow> \<forall>l \<in> set pre. is_context l \<Longrightarrow> is_context (last pre)"
  by simp

lemma extract_two_removed_one_added:
  assumes lc: "is_context lc"
    and r1: "is_removed r1" "source_line_no r1 = Some 10"
    and r2: "is_removed r2" "source_line_no r2 = Some 11"
    and a: "is_added a" "target_line_no a = Some t"
    and post: "\<forall>l \<in> set post. is_context l"
  shows "extract_changes rv lc (r1 # r2 # a # post) [] =
         Inr [if rv
              then \<lparr> start = t, removed_lines = [line_value a],
                     added_lines = [line_value r1, line_value r2] \<rparr>
              else \<lparr> start = 10, removed_lines = [line_value r1, line_value r2],
                     added_lines = [line_value a] \<rparr>]"
proof -
  have na: "\<not> is_added r1" using r1(1) by (simp add: is_added_def is_removed_def)
  have tlpost: "\<forall>l \<in> set (tl post). is_context l"
    using post by (cases post) simp_all
  have mk: "make_change rv lc [r1, r2] [a] =
        Inr (if rv
              then \<lparr> start = t, removed_lines = [line_value a],
                     added_lines = [line_value r1, line_value r2] \<rparr>
              else \<lparr> start = 10, removed_lines = [line_value r1, line_value r2],
                     added_lines = [line_value a] \<rparr>)"
    using r1 a by (simp add: make_change_def bind_err_def str_line_def)
  show ?thesis
    using na r1(1) lc
    by (simp add: take_two_removed [OF r1 r2 a(1)] take_added_then_context [OF a(1) post] mk
        extract_changes_only_context [OF tlpost] del: take_while_two.simps)
qed

text \<open>
  Claim C3. A patch file whose single hunk is some context lines, two removed lines numbered
  10 and 11 on the source side, one added line, and context lines after it: without
  reversal \<open>from_patch_file\<close> yields exactly one change with \<open>start = 10\<close>, the two
  removed texts and the one added text (the diff markers stripped); with reversal it
  yields the two lists swapped and \<open>start\<close> the added line's number on the target side.
\<close>

theorem from_patch_file_two_removed_one_added:
  assumes pre: "pre \<noteq> []" "\<forall>l \<in> set pre. is_context l"
    and post: "\<forall>l \<in> set post. is_context l"
    and r1: "is_removed r1" "source_line_no r1 = Some 10"
    and r2: "is_removed r2" "source_line_no r2 = Some 11"
    and a: "is_added a" "target_line_no a = Some t"
    and pf: "hunks pf = [pre @ [r1, r2, a] @ post]"
  shows "from_patch_file False pf =
           Inr \<lparr> path = remove_prefix (source_file pf),
                 changes = [\<lparr> start = 10, removed_lines = [line_value r1, line_value r2],
                              added_lines = [line_value a] \<rparr>] \<rparr>
       \<and> from_patch_file True pf =
           Inr \<lparr> path = remove_prefix (source_file pf),
                 changes = [\<lparr> start = t, removed_lines = [line_value a],
                              added_lines = [line_value r1, line_value r2] \<rparr>] \<rparr>"
proof -
  obtain p ps where pre_eq: "pre = p # ps" using pre(1) by (cases pre) auto
  have ps: "\<forall>l \<in> set ps. is_context l" using pre(2) pre_eq by simp
  have lc: "is_context (last (p # ps))" using pre pre_eq last_context by metis
  have cat: "concat (hunks pf) = p # (ps @ (r1 # r2 # a # post))"
    by (simp add: pf pre_eq)
  have run: "extract_changes rv p (ps @ (r1 # r2 # a # post)) [] =
        Inr [if rv
              then \<lparr> start = t, removed_lines = [line_value a],
                     added_lines = [line_value r1, line_value r2] \<rparr>
              else \<lparr> start = 10, removed_lines = [line_value r1, line_value r2],
                     added_lines = [line_value a] \<rparr>]" for rv
    by (simp only: extract_changes_skip_context [OF ps]
        extract_two_removed_one_added [OF lc r1 r2 a post])
  show ?thesis
    by (simp add: from_patch_file_def cat run del: extract_changes.simps)
qed

theorem from_patch_file_two_removed_one_added_witness:
  "from_patch_file False
     \<lparr> source_file = ''a/src/Foo.java'',
       hunks = [[context_line 9 9 ''c''] @
                [removed_line 10 ''x'', removed_line 11 ''y'', added_line 10 ''z''] @
                [context_line 12 11 ''d'']],
       is_modified_file = True \<rparr> =
     Inr \<lparr> path = ''src/Foo.java'',
           changes = [\<lparr> start = 10, removed_lines = [''x'', ''y''], added_lines = [''z''] \<rparr>] \<rparr>
   \<and> from_patch_file True
     \<lparr> source_file = ''a/src/Foo.java'',
       hunks = [[context_line 9 9 ''c''] @
                [removed_line 10 ''x'', removed_line 11 ''y'', added_line 10 ''z''] @
                [context_line 12 11 ''d'']],
       is_modified_file = True \<rparr> =
     Inr \<lparr> path = ''src/Foo.java'',
           changes = [\<lparr> start = 10, removed_lines = [''z''], added_lines = [''x'', ''y''] \<rparr>] \<rparr>"
  using from_patch_file_two_removed_one_added
    [of "[context_line 9 9 ''c'']" "[context_line 12 11 ''d'']"
        "removed_line 10 ''x''" "removed_line 11 ''y''" "added_line 10 ''z''" 10
        "\<lparr> source_file = ''a/src/Foo.java'',
       hunks = [[context_line 9 9 ''c''] @
                [removed_line 10 ''x'', removed_line 11 ''y'', added_line 10 ''z''] @
                [context_line 12 11 ''d'']],
       is_modified_file = True \<rparr>"]
  by (simp add: context_line_def removed_line_def added_line_def is_context_def is_removed_def
      is_added_def remove_prefix_def)

subsection \<open>The derived bug sets\<close>

lemma example_d4j_init:
  "Defects4J_init (\<lambda>p. True) (\<lambda>p. Inr [example_patch]) example_metadata ''/d4j'' ''/co'' ''/jdk''
     = Inr example_d4j"
  by (simp add: Let_def Defects4J_init_def example_patch_def example_metadata_def example_d4j_def
      example_bug_def buggy_files_of_def bug_id_of_def from_patch_file_def context_line_def
      removed_line_def added_line_def is_added_def is_removed_def is_context_def
      line_consecutive_def make_change_def bind_err_def str_line_def remove_prefix_def)

text \<open>
  Claim C8, as the code has it. After a successful construction every entry of
  \<open>single_line_bugs\<close> is an entry of \<open>single_hunk_bugs\<close>, every entry of
  \<open>single_hunk_bugs\<close> is an entry of \<open>all_bugs\<close>, every bug of \<open>single_hunk_bugs\<close> has
  exactly one buggy file with exactly one change, and for every bug of
  \<open>single_line_bugs\<close> that change adds exactly one line. Nothing is said of the lines it
  removes.
\<close>

theorem d4j_bug_sets:
  assumes "Defects4J_init path_exists ps md home checkout_root java8 = Inr d"
  shows "set (single_line_bugs d) \<subseteq> set (single_hunk_bugs d)
       \<and> set (single_hunk_bugs d) \<subseteq> set (all_bugs d)
       \<and> (\<forall>(i, b) \<in> set (single_hunk_bugs d).
            length (buggy_files b) = 1 \<and> length (changes (buggy_files b ! 0)) = 1)
       \<and> (\<forall>(i, b) \<in> set (single_line_bugs d). length (added_lines (first_change b)) = 1)"
  using assms
  by (auto simp: Defects4J_init_def Let_def first_change_def split: if_splits sum.splits)

theorem d4j_bug_sets_witness:
  "Defects4J_init (\<lambda>p. True) (\<lambda>p. Inr [example_patch]) example_metadata ''/d4j'' ''/co'' ''/jdk''
     = Inr example_d4j
   \<and> set (single_line_bugs example_d4j) \<subseteq> set (single_hunk_bugs example_d4j)
   \<and> set (single_hunk_bugs example_d4j) \<subseteq> set (all_bugs example_d4j)
   \<and> single_line_bugs example_d4j = [(''Lang-1'', example_bug)]
   \<and> single_hunk_bugs example_d4j = [(''Lang-1'', example_bug)]
   \<and> length (buggy_files example_bug) = 1
   \<and> length (changes (buggy_files example_bug ! 0)) = 1
   \<and> length (added_lines (first_change example_bug)) = 1"
  using d4j_bug_sets [OF example_d4j_init] example_d4j_init
  by (simp add: example_d4j_def)

text \<open>
  The claim C8 as stated fails: the bug of the concrete benchmark is in
  \<open>single_line_bugs\<close>, and its one change removes a line.
\<close>

theorem single_line_bugs_counterexample:
  "Defects4J_init (\<lambda>p. True) (\<lambda>p. Inr [example_patch]) example_metadata ''/d4j'' ''/co'' ''/jdk''
     = Inr example_d4j
   \<and> single_line_bugs example_d4j = [(''Lang-1'', example_bug)]
   \<and> removed_lines (first_change example_bug) = [''buggy'']
   \<and> added_lines (first_change example_bug) = [''fixed'']"
  by (simp add: example_d4j_init)
     (simp add: example_d4j_def example_bug_def first_change_def)

subsection \<open>Checkout\<close>

lemma issue_quiet:
  "raises E w ev = None \<Longrightarrow> issue E ev w = (Inr (completed E w ev), w @ [ev])"
  by (simp add: issue_def)

lemma bind_io_Inr:
  "bind_io m f w = (Inr y, w'') \<Longrightarrow> \<exists>x w'. m w = (Inr x, w') \<and> f x w' = (Inr y, w'')"
  by (auto simp: bind_io_def split: prod.splits sum.splits)

lemma issue_Inr:
  "issue E ev w = (Inr x, w') \<Longrightarrow> w' = w @ [ev]"
  by (auto simp: issue_def split: option.splits)

text \<open>What a checkout that returns has issued.\<close>

lemma checkout_trace:
  assumes "checkout E d bug_id buggy w = (Inr u, w')"
  shows "\<exists>b proj id_str.
           map_of (all_bugs d) bug_id = Some b \<and> split_bug_id bug_id = Inr (proj, id_str) \<and>
           w' = w @ [RepoOpen (proj_path b),
                     GitExecute (proj_path b) git_reset,
                     SubprocessRun (d4j_checkout_cmd d proj id_str buggy (proj_path b))
                       None None None,
                     GitExecute (proj_path b) git_reset,
                     GitExecute (proj_path b) git_clean,
                     RepoClose (proj_path b)]"
  using assms
  by (auto simp: checkout_def bind_io_def issue_def Let_def return_io_def raise_io_def
      split: option.splits sum.splits prod.splits)

text \<open>
  Claim C4, as the code has it. When the bug is known, its id splits at the one dash and no
  library call raises, \<open>checkout\<close> returns, and what it has issued on the working copy
  is, in this order: the hard reset, the benchmark's checkout command for the buggy or the
  fixed revision, the hard reset again, and the clean of untracked files (between the
  opening and the closing of the repository handle). There is no clean before the
  benchmark's checkout command.
\<close>

theorem checkout_operations:
  assumes "map_of (all_bugs d) bug_id = Some b"
    and "split_bug_id bug_id = Inr (proj, id_str)"
    and "\<forall>w ev. raises E w ev = None"
  shows "checkout E d bug_id buggy w =
           (Inr (), w @ [RepoOpen (proj_path b),
                         GitExecute (proj_path b) git_reset,
                         SubprocessRun (d4j_checkout_cmd d proj id_str buggy (proj_path b))
                           None None None,
                         GitExecute (proj_path b) git_reset,
                         GitExecute (proj_path b) git_clean,
                         RepoClose (proj_path b)])"
  using assms by (simp add: checkout_def bind_io_def issue_def Let_def return_io_def)

theorem checkout_operations_witness:
  "map_of (all_bugs example_d4j) ''Lang-1'' = Some example_bug
   \<and> split_bug_id ''Lang-1'' = Inr (''Lang'', ''1'')
   \<and> (\<forall>w ev. raises quiet_env w ev = None)
   \<and> checkout quiet_env example_d4j ''Lang-1'' True [] =
       (Inr (), [RepoOpen ''/co/Lang-1'',
                 GitExecute ''/co/Lang-1'' git_reset,
                 SubprocessRun [''/d4j/framework/bin/defects4j'', ''checkout'', ''-p'', ''Lang'',
                                ''-v1b'', ''-w'', ''/co/Lang-1''] None None None,
                 GitExecute ''/co/Lang-1'' git_reset,
                 GitExecute ''/co/Lang-1'' git_clean,
                 RepoClose ''/co/Lang-1''])"
proof -
  have a: "map_of (all_bugs example_d4j) ''Lang-1'' = Some example_bug"
    by (simp add: example_d4j_def)
  have b: "split_bug_id ''Lang-1'' = Inr (''Lang'', ''1'')"
    by (simp add: split_bug_id_def)
  have c: "\<forall>w ev. raises quiet_env w ev = None"
    by (simp add: quiet_env_def)
  show ?thesis
    using a b c checkout_operations [OF a b c, of True "[]"]
    by (simp add: example_bug_def d4j_checkout_cmd_def d4j_executable_def
        d4j_executable_of_def path_join_def example_d4j_def)
qed

text \<open>
  The claim C4 as stated fails: in the checkout of the fixed revision of the concrete bug,
  the only operation before the benchmark's checkout command is the hard reset; the clean
  is issued once, after it.
\<close>

theorem checkout_clean_counterexample:
  "checkout quiet_env example_d4j ''Lang-1'' False [] =
     (Inr (), [RepoOpen ''/co/Lang-1'',
               GitExecute ''/co/Lang-1'' [''git'', ''checkout'', ''HEAD'', ''-f'', ''.''],
               SubprocessRun [''/d4j/framework/bin/defects4j'', ''checkout'', ''-p'', ''Lang'',
                              ''-v1f'', ''-w'', ''/co/Lang-1''] None None None,
               GitExecute ''/co/Lang-1'' [''git'', ''checkout'', ''HEAD'', ''-f'', ''.''],
               GitExecute ''/co/Lang-1'' [''git'', ''clean'', ''-xfd''],
               RepoClose ''/co/Lang-1''])"
  by (simp add: Let_def checkout_def bind_io_def issue_def return_io_def quiet_env_def example_d4j_def example_bug_def
      split_bug_id_def d4j_checkout_cmd_def d4j_executable_def d4j_executable_of_def
      path_join_def git_reset_def git_clean_def)

subsection \<open>The repair sweep\<close>

lemma invoked_repairs_append:
  "invoked_repairs (xs @ ys) = invoked_repairs xs @ invoked_repairs ys"
  by (induction xs rule: invoked_repairs.induct) simp_all









subsection \<open>Hunk removal\<close>

lemma split_on_nonempty: "split_on sep s \<noteq> []"
  by (induction s) (auto split: list.splits)

lemma join_Cons: "pieces \<noteq> [] \<Longrightarrow> join sep (piece # pieces) = piece @ sep # join sep pieces"
  by (cases pieces) simp_all

lemma join_split_on: "join sep (split_on sep s) = s"
proof (induction s)
  case Nil
  show ?case by simp
next
  case (Cons c cs)
  show ?case
  proof (cases "c = sep")
    case True
    then show ?thesis using Cons by (simp add: join_Cons split_on_nonempty)
  next
    case False
    obtain piece pieces where sp: "split_on sep cs = piece # pieces"
      using split_on_nonempty [of sep cs] by (cases "split_on sep cs") auto
    have "join sep ((c # piece) # pieces) = c # join sep (piece # pieces)"
      by (cases pieces) simp_all
    then show ?thesis using False Cons sp by simp
  qed
qed

lemma join_take_drop:
  "i < length ls \<Longrightarrow>
   join (CHR 0x0A) ls = with_newlines (take i ls) @ join (CHR 0x0A) (drop i ls)"
proof (induction ls arbitrary: i)
  case Nil
  then show ?case by simp
next
  case (Cons l ls)
  show ?case
  proof (cases i)
    case 0
    then show ?thesis by (simp add: with_newlines_def)
  next
    case (Suc j)
    then have j: "j < length ls" using Cons.prems by simp
    then have "ls \<noteq> []" by auto
    then have "join (CHR 0x0A) (l # ls) = l @ CHR 0x0A # join (CHR 0x0A) ls"
      by (rule join_Cons)
    also have "\<dots> = l @ CHR 0x0A # (with_newlines (take j ls) @ join (CHR 0x0A) (drop j ls))"
      using Cons.IH [OF j] by simp
    finally show ?thesis using Suc by (simp add: with_newlines_def)
  qed
qed

lemma content_take_drop:
  "i < length (tf_lines tf) \<Longrightarrow>
   content tf = with_newlines (take i (tf_lines tf)) @ join (CHR 0x0A) (drop i (tf_lines tf))"
  using join_take_drop [of i "tf_lines tf"] by (simp add: tf_lines_def join_split_on)

lemma sum_list_line_lengths:
  "sum_list (map (\<lambda>l. int (length l) + 1) ls) = int (length (with_newlines ls))"
  by (induction ls) (simp_all add: with_newlines_def)

lemma with_newlines_append: "with_newlines (xs @ ys) = with_newlines xs @ with_newlines ys"
  by (simp add: with_newlines_def)

lemma with_newlines_take_add:
  "with_newlines (take (s + k) ls) = with_newlines (take s ls) @ with_newlines (take k (drop s ls))"
  by (simp add: take_add with_newlines_append)

lemma with_newlines_ends:
  "ls \<noteq> [] \<Longrightarrow> endswith_newline (with_newlines ls)"
  by (induction ls rule: rev_induct) (simp_all add: with_newlines_def endswith_newline_def)

lemma form_index_line_start:
  "i < length (tf_lines tf) \<Longrightarrow>
   form_index tf (int i) 0 = Inr (int (length (with_newlines (take i (tf_lines tf)))))"
  by (simp add: form_index_def Let_def sum_list_line_lengths)

lemma refine_index_inside:
  "i < length (tf_lines tf) \<Longrightarrow> refine_index tf (int i) 0 = (int i, 0)"
  by (simp add: refine_index_def Let_def)

lemma py_slice_prefix: "py_slice (p @ r) 0 (int (length p)) = p"
  by (simp add: py_slice_def clip_index_def)

lemma py_slice_suffix: "py_slice (p @ r) (int (length p)) (int (length (p @ r))) = r"
  by (simp add: py_slice_def clip_index_def)

lemma py_index_at: "py_index (p @ x # r) (int (length p)) = Inr x"
  by (simp add: py_index_def Let_def)

lemma py_index_before:
  "p \<noteq> [] \<Longrightarrow> py_index (p @ r) (int (length p) - 1) = Inr (last p)"
proof -
  assume ne: "p \<noteq> []"
  then have "nat (int (length p) - 1) = length p - 1" by simp
  moreover have "0 \<le> int (length p) - 1" using ne by (cases p) simp_all
  moreover have "(p @ r) ! (length p - 1) = last p"
    using ne by (simp add: nth_append last_conv_nth)
  ultimately show ?thesis using ne
    by (simp add: py_index_def Let_def)
qed

text \<open>
  Claim C6. For a text file and a change whose removed span lies strictly inside the file
  (it does not start at the first line, and a line follows it): \<open>remove_buggy_hunk\<close>
  returns; the prefix is all the text before the removed lines and ends in a newline; the
  suffix is a newline followed by all the text after them; the content has become the
  prefix followed by the suffix, the cursor is at the end of the prefix, and the
  characters at the cursor and immediately before it are both newlines.
\<close>

theorem remove_buggy_hunk_inside:
  fixes tf :: text_file and c :: change
  defines "s \<equiv> nat (start c - 1)"
    and "k \<equiv> length (removed_lines c)"
  defines "prefix \<equiv> with_newlines (take s (tf_lines tf))"
    and "removed \<equiv> with_newlines (take k (drop s (tf_lines tf)))"
    and "rest \<equiv> join (CHR 0x0A) (drop (s + k) (tf_lines tf))"
  assumes first: "2 \<le> start c"
    and follows: "start c - 1 + int (length (removed_lines c)) < int (length (tf_lines tf))"
  shows "content tf = prefix @ removed @ rest
       \<and> remove_buggy_hunk tf c =
           Inr ((prefix, CHR 0x0A # rest),
                tf \<lparr> content := prefix @ CHR 0x0A # rest, cursor := int (length prefix) \<rparr>)
       \<and> endswith_newline prefix
       \<and> py_index (prefix @ CHR 0x0A # rest) (int (length prefix)) = Inr (CHR 0x0A)
       \<and> py_index (prefix @ CHR 0x0A # rest) (int (length prefix) - 1) = Inr (CHR 0x0A)"
proof -
  let ?ls = "tf_lines tf"
  have s_pos: "0 < s" and s_int: "int s = start c - 1"
    using first by (simp_all add: s_def)
  have e_lt: "s + k < length ?ls" using follows first by (simp add: s_def k_def)
  then have s_lt: "s < length ?ls" by simp
  have e_int: "int (s + k) = start c - 1 + int (length (removed_lines c))"
    using s_int by (simp add: k_def)
  have c1: "content tf = prefix @ join (CHR 0x0A) (drop s ?ls)"
    unfolding prefix_def by (rule content_take_drop [OF s_lt])
  have c2: "content tf = (prefix @ removed) @ rest"
    unfolding prefix_def removed_def rest_def with_newlines_take_add [symmetric]
    by (rule content_take_drop [OF e_lt])
  have fs: "form_index tf (start c - 1) 0 = Inr (int (length prefix))"
    using form_index_line_start [OF s_lt] by (simp add: s_int prefix_def)
  have fe: "form_index tf (start c - 1 + int (length (removed_lines c))) 0
      = Inr (int (length (prefix @ removed)))"
    using form_index_line_start [OF e_lt]
    by (simp only: e_int prefix_def removed_def with_newlines_take_add)
  have rs: "refine_index tf (start c - 1) 0 = (start c - 1, 0)"
    using refine_index_inside [OF s_lt] by (simp add: s_int)
  have re: "refine_index tf (start c - 1 + int (length (removed_lines c))) 0
      = (start c - 1 + int (length (removed_lines c)), 0)"
    using refine_index_inside [OF e_lt] by (simp only: e_int)
  have p1: "py_slice (content tf) 0 (int (length prefix)) = prefix"
    by (subst c1) (rule py_slice_prefix)
  have p2: "py_slice (content tf) (int (length (prefix @ removed))) (int (length (content tf)))
      = rest"
    by (subst (1 2) c2) (rule py_slice_suffix)
  have ends: "endswith_newline prefix"
    unfolding prefix_def using s_pos s_lt by (intro with_newlines_ends) auto
  then have ne: "prefix \<noteq> []" and lst: "last prefix = CHR 0x0A"
    by (simp_all add: endswith_newline_def)
  have at: "py_index (prefix @ CHR 0x0A # rest) (int (length prefix)) = Inr (CHR 0x0A)"
    by (rule py_index_at)
  have before: "py_index (prefix @ CHR 0x0A # rest) (int (length prefix) - 1) = Inr (CHR 0x0A)"
    using py_index_before [OF ne, of "CHR 0x0A # rest"] lst by simp
  have run: "remove_buggy_hunk tf c =
           Inr ((prefix, CHR 0x0A # rest),
                tf \<lparr> content := prefix @ CHR 0x0A # rest, cursor := int (length prefix) \<rparr>)"
    unfolding remove_buggy_hunk_def Let_def
    by (simp add: fs fe rs re p1 p2 ends at before move_cursor_def del: length_append)
  show ?thesis using c2 run ends at before by simp
qed

theorem remove_buggy_hunk_inside_witness:
  "remove_buggy_hunk example_text_file
     \<lparr> start = 2, removed_lines = [''bb'', ''ccc''], added_lines = [] \<rparr> =
     Inr ((''a'' @ [CHR 0x0A], CHR 0x0A # ''d'' @ [CHR 0x0A]),
          example_text_file \<lparr> content := (''a'' @ [CHR 0x0A]) @ CHR 0x0A # ''d'' @ [CHR 0x0A],
                              cursor := 2 \<rparr>)
   \<and> content example_text_file =
       (''a'' @ [CHR 0x0A]) @ (''bb'' @ [CHR 0x0A] @ ''ccc'' @ [CHR 0x0A]) @ (''d'' @ [CHR 0x0A])
   \<and> endswith_newline (''a'' @ [CHR 0x0A])"
proof -
  have ls: "tf_lines example_text_file = [''a'', ''bb'', ''ccc'', ''d'', []]"
    by (simp add: tf_lines_def example_text_file_def)
  show ?thesis
    using remove_buggy_hunk_inside
      [of "\<lparr> start = 2, removed_lines = [''bb'', ''ccc''], added_lines = [] \<rparr>"
          example_text_file]
    by (simp add: ls with_newlines_def)
qed

subsection \<open>Deduplication\<close>

lemma seen_texts_Suc:
  "seen_texts cands (Suc n) =
     (if any_hunk_is_None (cands ! n) then seen_texts cands n
      else insert (concat_hunk_str (cands ! n)) (seen_texts cands n))"
  by (auto simp: seen_texts_def less_Suc_eq)

lemma in_seen_texts_iff:
  "\<not> any_hunk_is_None (cands ! n) \<Longrightarrow>
   concat_hunk_str (cands ! n) \<in> seen_texts cands n \<longleftrightarrow> dup_flag cands n"
  by (auto simp: seen_texts_def dup_flag_def)

lemma dedup_consistent_snoc:
  assumes c: "dedup_consistent cands patches appeared"
    and n: "length patches < length cands"
    and p: "file_patches p = cands ! length patches"
    and d: "is_duplicate p = dup_flag cands (length patches)"
    and a: "appeared' = seen_texts cands (Suc (length patches))"
  shows "dedup_consistent cands (patches @ [p]) appeared'"
proof -
  have "map file_patches (patches @ [p]) = take (Suc (length patches)) cands"
    using c n p by (simp add: dedup_consistent_def take_Suc_conv_app_nth)
  moreover have "\<forall>i<length (patches @ [p]). is_duplicate ((patches @ [p]) ! i) = dup_flag cands i"
    using c d by (auto simp: dedup_consistent_def nth_append less_Suc_eq)
  ultimately show ?thesis using n a by (simp add: dedup_consistent_def)
qed

text \<open>The loop, started at any index not beyond what has been processed.\<close>

lemma transform_patches_consistent:
  assumes "cands = done @ rest" and "patch_idx = length done"
    and "patch_idx \<le> length patches"
    and "dedup_consistent cands patches appeared"
    and "transform_patches patch_idx rest (patches, appeared) = (patches', appeared')"
  shows "dedup_consistent cands patches' appeared' \<and> length patches' = length cands"
  using assms
proof (induction rest arbitrary: patch_idx "done" patches appeared)
  case Nil
  then show ?case by (simp add: dedup_consistent_def)
next
  case (Cons patch rest)
  have cands: "cands = (done @ [patch]) @ rest" using Cons.prems(1) by simp
  have len: "Suc patch_idx = length (done @ [patch])" using Cons.prems(2) by simp
  have nth: "cands ! patch_idx = patch" using Cons.prems(1,2) by simp
  have lt: "patch_idx < length cands" using Cons.prems(1,2) by simp
  show ?case
  proof (cases "patch_idx < length patches")
    case True
    then have "transform_patches (Suc patch_idx) rest (patches, appeared) = (patches', appeared')"
      using Cons.prems(5) by simp
    from Cons.IH [OF cands len _ Cons.prems(4) this] True show ?thesis by simp
  next
    case False
    then have eq: "patch_idx = length patches" using Cons.prems(3) by simp
    let ?flag = "\<not> any_hunk_is_None patch \<and> concat_hunk_str patch \<in> appeared"
    let ?p = "\<lparr> file_patches = patch, is_duplicate = ?flag \<rparr>"
    let ?app = "if any_hunk_is_None patch \<or> concat_hunk_str patch \<in> appeared then appeared
                else insert (concat_hunk_str patch) appeared"
    have step: "transform_patches (Suc patch_idx) rest (patches @ [?p], ?app) = (patches', appeared')"
      using Cons.prems(5) False by (auto split: if_splits)
    have app: "appeared = seen_texts cands (length patches)"
      using Cons.prems(4) by (simp add: dedup_consistent_def)
    have flag: "?flag = dup_flag cands (length patches)"
    proof (cases "any_hunk_is_None patch")
      case True
      then show ?thesis using nth eq by (simp add: dup_flag_def)
    next
      case False
      then show ?thesis using in_seen_texts_iff [of cands "length patches"] nth eq app by simp
    qed
    have app': "?app = seen_texts cands (Suc (length patches))"
      using nth eq app by (auto simp: seen_texts_Suc)
    have cons: "dedup_consistent cands (patches @ [?p]) ?app"
      using Cons.prems(4) lt nth flag app' eq
      by (intro dedup_consistent_snoc) simp_all
    have "Suc patch_idx \<le> length (patches @ [?p])" using eq by simp
    from Cons.IH [OF cands len this cons step] show ?thesis .
  qed
qed

lemma transform_patches_prefix:
  "transform_patches patch_idx rest (patches, appeared) = (patches', appeared') \<Longrightarrow>
   take (length patches) patches' = patches \<and> length patches \<le> length patches'"
proof (induction rest arbitrary: patch_idx patches appeared)
  case Nil
  then show ?case by simp
next
  case (Cons patch rest)
  show ?case
  proof (cases "patch_idx < length patches")
    case True
    with Cons.prems have "transform_patches (Suc patch_idx) rest (patches, appeared) = (patches', appeared')"
      by simp
    from Cons.IH [OF this] show ?thesis .
  next
    case False
    with Cons.prems obtain p a where
      "transform_patches (Suc patch_idx) rest (patches @ [p], a) = (patches', appeared')"
      by (auto split: if_splits)
    from Cons.IH [OF this] have "take (Suc (length patches)) patches' = patches @ [p]"
      and "Suc (length patches) \<le> length patches'" by simp_all
    then have "take (length patches) (take (Suc (length patches)) patches') = patches"
      by simp
    then show ?thesis using \<open>Suc (length patches) \<le> length patches'\<close> by (simp add: min_def)
  qed
qed

text \<open>When every rank has been processed the loop changes nothing.\<close>

lemma transform_patches_skip:
  "patch_idx + length rest \<le> length patches \<Longrightarrow>
   transform_patches patch_idx rest (patches, appeared) = (patches, appeared)"
  by (induction rest arbitrary: patch_idx) simp_all

lemma transform_patches_length:
  "patch_idx \<le> length patches \<Longrightarrow>
   transform_patches patch_idx rest (patches, appeared) = (patches', appeared') \<Longrightarrow>
   patch_idx + length rest \<le> length patches'"
proof (induction rest arbitrary: patch_idx patches appeared)
  case Nil
  then show ?case by simp
next
  case (Cons patch rest)
  show ?case
  proof (cases "patch_idx < length patches")
    case True
    with Cons.prems have "transform_patches (Suc patch_idx) rest (patches, appeared) = (patches', appeared')"
      by simp
    from Cons.IH [OF _ this] True show ?thesis by simp
  next
    case False
    with Cons.prems obtain p a where
      "transform_patches (Suc patch_idx) rest (patches @ [p], a) = (patches', appeared')"
      by (auto split: if_splits)
    from Cons.IH [OF _ this] Cons.prems(1) False show ?thesis by simp
  qed
qed

lemma setdefault_map_of:
  "setdefault k dflt d = (v, d') \<Longrightarrow>
   map_of d' = (map_of d)(k \<mapsto> v) \<and> v = (case map_of d k of None \<Rightarrow> dflt | Some x \<Rightarrow> x)"
  by (auto simp: setdefault_def fun_eq_iff map_add_def split: option.splits)

lemma setdefault_present:
  "map_of d k = Some v \<Longrightarrow> setdefault k dflt d = (v, d)"
  by (simp add: setdefault_def)

text \<open>What one pass of the loop over the bugs does to the transformed result.\<close>

lemma transform_bug_Inr:
  assumes "transform_bug tar (bug_id, files) t = Inr t'"
  shows "\<exists>cands patches' appeared'.
           iter_files tar files = Inr cands
           \<and> transform_patches 0 cands (patches_in t bug_id, appeared_in t bug_id)
               = (patches', appeared')
           \<and> map_of (result_dict t') = (map_of (result_dict t))(bug_id \<mapsto> patches')
           \<and> map_of (all_appeared t') = (map_of (all_appeared t))(bug_id \<mapsto> appeared')"
proof -
  obtain patches rd1 where sd1: "setdefault bug_id [] (result_dict t) = (patches, rd1)"
    by (cases "setdefault bug_id [] (result_dict t)")
  obtain appeared aa1 where sd2: "setdefault bug_id {} (all_appeared t) = (appeared, aa1)"
    by (cases "setdefault bug_id {} (all_appeared t)")
  from assms sd1 sd2 obtain cands where it: "iter_files tar files = Inr cands"
    by (cases "iter_files tar files") (auto simp: transform_bug_def)
  obtain patches' appeared' where
    tp: "transform_patches 0 cands (patches, appeared) = (patches', appeared')"
    by (cases "transform_patches 0 cands (patches, appeared)")
  have t': "t' = \<lparr> result_dict = AList.update bug_id patches' rd1,
                   all_appeared = AList.update bug_id appeared' aa1 \<rparr>"
    using assms sd1 sd2 it tp by (simp add: transform_bug_def)
  have p: "patches = patches_in t bug_id" and a: "appeared = appeared_in t bug_id"
    using setdefault_map_of [OF sd1] setdefault_map_of [OF sd2]
    by (simp_all add: patches_in_def appeared_in_def)
  have "map_of (result_dict t') = (map_of (result_dict t))(bug_id \<mapsto> patches')"
    using setdefault_map_of [OF sd1] by (simp add: t' update_conv')
  moreover have "map_of (all_appeared t') = (map_of (all_appeared t))(bug_id \<mapsto> appeared')"
    using setdefault_map_of [OF sd2] by (simp add: t' update_conv')
  ultimately show ?thesis using it tp p a by blast
qed

lemma transform_bug_other:
  assumes "transform_bug tar (bug_id, files) t = Inr t'" and "b \<noteq> bug_id"
  shows "patches_in t' b = patches_in t b \<and> appeared_in t' b = appeared_in t b"
  using transform_bug_Inr [OF assms(1)] assms(2)
  by (auto simp: patches_in_def appeared_in_def)

lemma transform_bugs_other:
  "transform_bugs tar raw t = Inr t' \<Longrightarrow> b \<notin> fst ` set raw \<Longrightarrow>
   patches_in t' b = patches_in t b \<and> appeared_in t' b = appeared_in t b"
proof (induction raw arbitrary: t)
  case Nil
  then show ?case by simp
next
  case (Cons entry raw)
  obtain bug_id files where e: "entry = (bug_id, files)" by (cases entry)
  from Cons.prems(1) obtain t1 where
    t1: "transform_bug tar (bug_id, files) t = Inr t1" "transform_bugs tar raw t1 = Inr t'"
    by (auto simp: e split: sum.splits)
  have "b \<noteq> bug_id" and "b \<notin> fst ` set raw" using Cons.prems(2) e by auto
  then show ?case using transform_bug_other [OF t1(1)] Cons.IH [OF t1(2)] by simp
qed

lemma transform_bugs_entry:
  assumes "distinct (map fst raw)" and "transform_bugs tar raw t = Inr t'"
    and "(bug_id, files) \<in> set raw"
  shows "\<exists>cands. iter_files tar files = Inr cands
           \<and> transform_patches 0 cands (patches_in t bug_id, appeared_in t bug_id)
               = (patches_in t' bug_id, appeared_in t' bug_id)"
  using assms
proof (induction raw arbitrary: t)
  case Nil
  then show ?case by simp
next
  case (Cons entry raw)
  obtain b f where e: "entry = (b, f)" by (cases entry)
  from Cons.prems(2) obtain t1 where
    t1: "transform_bug tar (b, f) t = Inr t1" "transform_bugs tar raw t1 = Inr t'"
    by (auto simp: e split: sum.splits)
  have d: "distinct (map fst raw)" and nb: "b \<notin> fst ` set raw"
    using Cons.prems(1) e by auto
  show ?case
  proof (cases "(bug_id, files) = (b, f)")
    case True
    from transform_bug_Inr [OF t1(1)] obtain cands patches' appeared' where
      c: "iter_files tar f = Inr cands"
         "transform_patches 0 cands (patches_in t b, appeared_in t b) = (patches', appeared')"
         "map_of (result_dict t1) = (map_of (result_dict t))(b \<mapsto> patches')"
         "map_of (all_appeared t1) = (map_of (all_appeared t))(b \<mapsto> appeared')"
      by blast
    have "patches_in t1 b = patches'" "appeared_in t1 b = appeared'"
      using c(3,4) by (simp_all add: patches_in_def appeared_in_def)
    moreover have "patches_in t' b = patches_in t1 b" "appeared_in t' b = appeared_in t1 b"
      using transform_bugs_other [OF t1(2) nb] by simp_all
    ultimately show ?thesis using c(1,2) True by simp
  next
    case False
    then have mem: "(bug_id, files) \<in> set raw" using Cons.prems(3) e by auto
    then have "bug_id \<noteq> b" using nb by force
    then have "patches_in t1 bug_id = patches_in t bug_id"
      "appeared_in t1 bug_id = appeared_in t bug_id"
      using transform_bug_other [OF t1(1)] by simp_all
    then show ?thesis using Cons.IH [OF d t1(2) mem] by simp
  qed
qed

lemma patches_of_alt:
  "patches_of rep b =
     patches_in (case transformed_result rep of
                   None \<Rightarrow> \<lparr> result_dict = [], all_appeared = [] \<rparr> | Some t \<Rightarrow> t) b"
  by (simp add: patches_of_def patches_in_def split: option.splits)

lemma appeared_of_alt:
  "appeared_of rep b =
     appeared_in (case transformed_result rep of
                    None \<Rightarrow> \<lparr> result_dict = [], all_appeared = [] \<rparr> | Some t \<Rightarrow> t) b"
  by (simp add: appeared_of_def appeared_in_def split: option.splits)

text \<open>
  Claim C2. Let \<open>transform\<close> return on a report whose raw result has one entry per bug (it
  is a dict), and take a bug of the raw result whose recorded patches and seen set, if
  any, are those of a deduplication of the first candidates (for a report not yet
  transformed there are none). Then afterwards every candidate of the bug is recorded
  under its rank, and: a candidate all of whose hunks have text and whose concatenated
  text equals that of an earlier candidate all of whose hunks have text is marked
  duplicate; a candidate with no such earlier candidate (the first with its text) is not;
  a candidate with a hunk without text is not marked duplicate; and the seen set holds
  the concatenated texts of the candidates all of whose hunks have text, and nothing else.
  The patches recorded before are kept.
\<close>

theorem transform_dedup:
  assumes keys: "distinct (map fst (repair_result rep))"
    and run: "transform tar rep = Inr rep'"
    and entry: "(bug_id, files) \<in> set (repair_result rep)"
    and prior: "\<forall>cands. iter_files tar files = Inr cands \<longrightarrow>
                  dedup_consistent cands (patches_of rep bug_id) (appeared_of rep bug_id)"
  shows "\<exists>cands. iter_files tar files = Inr cands
           \<and> length (patches_of rep' bug_id) = length cands
           \<and> dedup_consistent cands (patches_of rep' bug_id) (appeared_of rep' bug_id)
           \<and> take (length (patches_of rep bug_id)) (patches_of rep' bug_id)
               = patches_of rep bug_id"
proof -
  let ?t0 = "case transformed_result rep of
               None \<Rightarrow> \<lparr> result_dict = [], all_appeared = [] \<rparr> | Some t \<Rightarrow> t"
  from run obtain t' where
    t': "transform_bugs tar (repair_result rep) ?t0 = Inr t'"
        "rep' = rep \<lparr> transformed_result := Some t' \<rparr>"
    by (auto simp: transform_def Let_def split: sum.splits)
  from transform_bugs_entry [OF keys t'(1) entry] obtain cands where
    c: "iter_files tar files = Inr cands"
       "transform_patches 0 cands (patches_in ?t0 bug_id, appeared_in ?t0 bug_id)
          = (patches_in t' bug_id, appeared_in t' bug_id)"
    by blast
  have p': "patches_of rep' bug_id = patches_in t' bug_id"
    and a': "appeared_of rep' bug_id = appeared_in t' bug_id"
    by (simp_all add: t'(2) patches_of_def appeared_of_def)
  have cons: "dedup_consistent cands (patches_in ?t0 bug_id) (appeared_in ?t0 bug_id)"
    using prior c(1) by (simp add: patches_of_alt appeared_of_alt)
  have "dedup_consistent cands (patches_in t' bug_id) (appeared_in t' bug_id)
      \<and> length (patches_in t' bug_id) = length cands"
    by (rule transform_patches_consistent [where ?done = "[]", OF _ _ _ cons c(2)]) simp_all
  moreover have "take (length (patches_in ?t0 bug_id)) (patches_in t' bug_id)
      = patches_in ?t0 bug_id"
    using transform_patches_prefix [OF c(2)] by simp
  ultimately show ?thesis
    using c(1) by (simp add: p' a' patches_of_alt [of rep] appeared_of_alt [of rep])
qed

lemma example_iter_files:
  "iter_files (\<lambda>b. b) (snd (example_raw ! 0)) = Inr example_candidates"
  by (simp add: example_raw_def iter_files_def iter_files_groups_def group_ok_def len_set_def
      zip_star_def make_file_patch_def example_candidates_def example_candidate_def
      example_buggy_hunk_def upt_rec)

lemma example_transform:
  "transform (\<lambda>b. b) example_report
     = Inr (example_report \<lparr> transformed_result := Some example_transformed \<rparr>)"
  using example_iter_files
  by (simp add: transform_def example_report_def example_raw_def transform_bug_def
      setdefault_def example_candidates_def example_transformed_def
      any_hunk_is_None_def concat_hunk_str_def example_candidate_def avg_def insert_commute)

theorem transform_dedup_witness:
  "transform (\<lambda>b. b) example_report
     = Inr (example_report \<lparr> transformed_result := Some example_transformed \<rparr>)
   \<and> distinct (map fst (repair_result example_report))
   \<and> iter_files (\<lambda>b. b) (snd (example_raw ! 0)) = Inr example_candidates
   \<and> dedup_consistent example_candidates (patches_of example_report ''Lang-1'')
        (appeared_of example_report ''Lang-1'')
   \<and> dedup_consistent example_candidates
        (patches_of (example_report \<lparr> transformed_result := Some example_transformed \<rparr>) ''Lang-1'')
        (appeared_of (example_report \<lparr> transformed_result := Some example_transformed \<rparr>) ''Lang-1'')
   \<and> map is_duplicate
        (patches_of (example_report \<lparr> transformed_result := Some example_transformed \<rparr>) ''Lang-1'')
       = [False, False, True, False]
   \<and> appeared_of (example_report \<lparr> transformed_result := Some example_transformed \<rparr>) ''Lang-1''
       = {''x'', ''y''}"
proof -
  have keys: "distinct (map fst (repair_result example_report))"
    by (simp add: example_report_def example_raw_def)
  have entry: "(''Lang-1'', snd (example_raw ! 0)) \<in> set (repair_result example_report)"
    by (simp add: example_report_def example_raw_def)
  have fresh: "dedup_consistent example_candidates (patches_of example_report ''Lang-1'')
        (appeared_of example_report ''Lang-1'')"
    by (simp add: dedup_consistent_def patches_of_def appeared_of_def example_report_def
        seen_texts_def)
  have prior: "\<forall>cands. iter_files (\<lambda>b. b) (snd (example_raw ! 0)) = Inr cands \<longrightarrow>
      dedup_consistent cands (patches_of example_report ''Lang-1'')
        (appeared_of example_report ''Lang-1'')"
    using fresh by (simp add: example_iter_files)
  have flags: "map is_duplicate
        (patches_of (example_report \<lparr> transformed_result := Some example_transformed \<rparr>) ''Lang-1'')
       = [False, False, True, False]"
    by (simp add: patches_of_def patches_in_def example_transformed_def)
  have seen: "appeared_of (example_report \<lparr> transformed_result := Some example_transformed \<rparr>)
      ''Lang-1'' = {''x'', ''y''}"
    by (simp add: appeared_of_def appeared_in_def example_transformed_def)
  show ?thesis
    using transform_dedup [OF keys example_transform entry prior]
      keys example_transform example_iter_files fresh flags seen
    by simp
qed

subsection \<open>Idempotence of the transformation\<close>

lemma transform_bug_noop:
  assumes "fully_transformed tar t (bug_id, files)"
  shows "transform_bug tar (bug_id, files) t = Inr t"
proof -
  from assms obtain cands patches appeared where
    c: "iter_files tar files = Inr cands"
       "map_of (result_dict t) bug_id = Some patches"
       "map_of (all_appeared t) bug_id = Some appeared"
       "length cands \<le> length patches"
    by (auto simp: fully_transformed_def)
  have skip: "transform_patches 0 cands (patches, appeared) = (patches, appeared)"
    using c(4) by (simp add: transform_patches_skip)
  have "transform_bug tar (bug_id, files) t =
      Inr \<lparr> result_dict = AList.update bug_id patches (result_dict t),
            all_appeared = AList.update bug_id appeared (all_appeared t) \<rparr>"
    by (simp add: transform_bug_def setdefault_present [OF c(2)] setdefault_present [OF c(3)]
        c(1) skip)
  then show ?thesis
    by (simp add: update_triv [OF c(2)] update_triv [OF c(3)])
qed

lemma transform_bug_establishes:
  assumes "transform_bug tar (bug_id, files) t = Inr t'"
  shows "fully_transformed tar t' (bug_id, files)"
proof -
  from transform_bug_Inr [OF assms] obtain cands patches' appeared' where
    c: "iter_files tar files = Inr cands"
       "transform_patches 0 cands (patches_in t bug_id, appeared_in t bug_id)
          = (patches', appeared')"
       "map_of (result_dict t') = (map_of (result_dict t))(bug_id \<mapsto> patches')"
       "map_of (all_appeared t') = (map_of (all_appeared t))(bug_id \<mapsto> appeared')"
    by blast
  have "length cands \<le> length patches'"
    using transform_patches_length [OF _ c(2)] by simp
  then show ?thesis using c by (simp add: fully_transformed_def)
qed

lemma transform_bug_preserves:
  assumes "transform_bug tar (b, f) t = Inr t'"
    and "fully_transformed tar t (bug_id, files)"
  shows "fully_transformed tar t' (bug_id, files)"
proof -
  from transform_bug_Inr [OF assms(1)] obtain cands patches' appeared' where
    c: "transform_patches 0 cands (patches_in t b, appeared_in t b) = (patches', appeared')"
       "map_of (result_dict t') = (map_of (result_dict t))(b \<mapsto> patches')"
       "map_of (all_appeared t') = (map_of (all_appeared t))(b \<mapsto> appeared')"
    by blast
  show ?thesis
  proof (cases "b = bug_id")
    case False
    then show ?thesis using assms(2) c(2,3) by (simp add: fully_transformed_def)
  next
    case True
    from assms(2) obtain cs patches appeared where
      o: "iter_files tar files = Inr cs" "map_of (result_dict t) bug_id = Some patches"
         "length cs \<le> length patches"
      by (auto simp: fully_transformed_def)
    have "patches_in t b = patches" using o(2) True by (simp add: patches_in_def)
    then have "length patches \<le> length patches'"
      using transform_patches_prefix [OF c(1)] by simp
    then show ?thesis using o c(2,3) True by (simp add: fully_transformed_def)
  qed
qed

lemma transform_bugs_preserves:
  "transform_bugs tar raw t = Inr t' \<Longrightarrow> fully_transformed tar t entry \<Longrightarrow>
   fully_transformed tar t' entry"
proof (induction raw arbitrary: t)
  case Nil
  then show ?case by simp
next
  case (Cons e raw)
  obtain b f where e: "e = (b, f)" by (cases e)
  obtain bug_id files where entry: "entry = (bug_id, files)" by (cases entry)
  from Cons.prems(1) obtain t1 where
    t1: "transform_bug tar (b, f) t = Inr t1" "transform_bugs tar raw t1 = Inr t'"
    by (auto simp: e split: sum.splits)
  have "fully_transformed tar t1 entry"
    using transform_bug_preserves [OF t1(1)] Cons.prems(2) entry by simp
  then show ?case by (rule Cons.IH [OF t1(2)])
qed

lemma transform_bugs_establishes:
  "transform_bugs tar raw t = Inr t' \<Longrightarrow> entry \<in> set raw \<Longrightarrow>
   fully_transformed tar t' entry"
proof (induction raw arbitrary: t)
  case Nil
  then show ?case by simp
next
  case (Cons e raw)
  obtain b f where e: "e = (b, f)" by (cases e)
  from Cons.prems(1) obtain t1 where
    t1: "transform_bug tar (b, f) t = Inr t1" "transform_bugs tar raw t1 = Inr t'"
    by (auto simp: e split: sum.splits)
  show ?case
  proof (cases "entry = e")
    case True
    then have "fully_transformed tar t1 entry"
      using transform_bug_establishes [OF t1(1)] e by simp
    then show ?thesis by (rule transform_bugs_preserves [OF t1(2)])
  next
    case False
    then have "entry \<in> set raw" using Cons.prems(2) by simp
    then show ?thesis by (rule Cons.IH [OF t1(2)])
  qed
qed

lemma transform_bugs_noop:
  "\<forall>entry \<in> set raw. fully_transformed tar t entry \<Longrightarrow> transform_bugs tar raw t = Inr t"
proof (induction raw)
  case Nil
  show ?case by simp
next
  case (Cons e raw)
  obtain b f where e: "e = (b, f)" by (cases e)
  have "transform_bug tar (b, f) t = Inr t"
    using Cons.prems e by (intro transform_bug_noop) simp
  then show ?case using Cons by (simp add: e)
qed

text \<open>
  Claim C9. When \<open>transform\<close> has returned, running it again on the report it left (the raw
  result unchanged) returns the same report: the transformed result is identical, so no
  patch is appended, no duplicate flag changes, and the seen sets are unchanged.
\<close>

theorem transform_idempotent:
  assumes "transform tar rep = Inr rep'"
  shows "transform tar rep' = Inr rep' \<and> repair_result rep' = repair_result rep"
proof -
  let ?t0 = "case transformed_result rep of
               None \<Rightarrow> \<lparr> result_dict = [], all_appeared = [] \<rparr> | Some t \<Rightarrow> t"
  from assms obtain t' where
    t': "transform_bugs tar (repair_result rep) ?t0 = Inr t'"
        "rep' = rep \<lparr> transformed_result := Some t' \<rparr>"
    by (auto simp: transform_def Let_def split: sum.splits)
  have "\<forall>entry \<in> set (repair_result rep). fully_transformed tar t' entry"
    using transform_bugs_establishes [OF t'(1)] by blast
  then have "transform_bugs tar (repair_result rep) t' = Inr t'"
    by (rule transform_bugs_noop)
  then show ?thesis by (simp add: transform_def t'(2))
qed

theorem transform_idempotent_witness:
  "transform (\<lambda>b. b) example_report
     = Inr (example_report \<lparr> transformed_result := Some example_transformed \<rparr>)
   \<and> transform (\<lambda>b. b) (example_report \<lparr> transformed_result := Some example_transformed \<rparr>)
     = Inr (example_report \<lparr> transformed_result := Some example_transformed \<rparr>)"
  using transform_idempotent [OF example_transform] example_transform by simp

subsection \<open>Validation scheduling\<close>

declare chunked.simps [simp del]

lemma chunked_chunk:
  "0 < n \<Longrightarrow> c \<in> set (chunked n xs) \<Longrightarrow> length c \<le> n \<and> (\<exists>k. c = take n (drop k xs))"
proof (induction n xs rule: chunked.induct)
  case (1 n xs)
  show ?case
  proof (cases "xs = []")
    case True
    then show ?thesis using "1.prems" by (simp add: chunked.simps [of n "[]"])
  next
    case False
    then have "c = take n xs \<or> c \<in> set (chunked n (drop n xs))"
      using "1.prems" by (simp add: chunked.simps [of n xs])
    then show ?thesis
    proof
      assume "c = take n xs"
      then have "length c \<le> n \<and> c = take n (drop 0 xs)" by simp
      then show ?thesis by blast
    next
      assume "c \<in> set (chunked n (drop n xs))"
      from "1.IH" [OF _ "1.prems"(1) this] False "1.prems"(1)
      obtain k where "length c \<le> n" "c = take n (drop k (drop n xs))" by auto
      then have "length c \<le> n \<and> c = take n (drop (k + n) xs)" by simp
      then show ?thesis by blast
    qed
  qed
qed

lemma distinct_map_take_drop:
  "distinct (map f xs) \<Longrightarrow> distinct (map f (take n (drop k xs)))"
  by (simp add: take_map [symmetric] drop_map [symmetric] distinct_take distinct_drop)

text \<open>The items of one round: the \<open>j\<close>-th item of every queue that has one.\<close>

lemma round_items_Nil: "round_items j [] = []"
  by (simp add: round_items_def)

lemma round_items_Cons:
  "round_items j (ys # xss) =
     (if j < length ys then ys ! j # round_items j xss else round_items j xss)"
  by (simp add: round_items_def)

lemma round_items_tagged:
  assumes "list_all2 (\<lambda>l b. \<forall>it \<in> set l. fst it = b) xss bs"
  shows "set (map fst (round_items j xss)) \<subseteq> set bs
       \<and> (distinct bs \<longrightarrow> distinct (map fst (round_items j xss)))"
  using assms
proof (induction xss bs rule: list_all2_induct)
  case Nil
  show ?case by (simp add: round_items_Nil)
next
  case (Cons l xss b bs)
  have sub: "set (map fst (round_items j xss)) \<subseteq> set bs"
    and dist: "distinct bs \<longrightarrow> distinct (map fst (round_items j xss))"
    using Cons.IH by simp_all
  show ?case
  proof (cases "j < length l")
    case True
    then have "fst (l ! j) = b" using Cons.hyps(1) by simp
    then have eq: "map fst (round_items j (l # xss)) = b # map fst (round_items j xss)"
      using True by (simp add: round_items_Cons)
    show ?thesis unfolding eq using sub dist by auto
  next
    case False
    then have eq: "round_items j (l # xss) = round_items j xss"
      by (simp add: round_items_Cons)
    show ?thesis unfolding eq using sub dist by auto
  qed
qed

lemma round_items_subset: "set (round_items j xss) \<subseteq> \<Union> (set ` set xss)"
  by (induction xss) (auto simp: round_items_Nil round_items_Cons)

lemma zip_longest_round:
  "r \<in> set (zip_longest xss) \<Longrightarrow>
   \<exists>j. r = map (\<lambda>xs. if j < length xs then Some (xs ! j) else None) xss"
  by (auto simp: zip_longest_def)

text \<open>Every batch is part of one round, so it has at most \<open>n\<close> items, all of them items
  of the queues, and no two of the same queue.\<close>

lemma result_batches_batch:
  assumes n: "0 < n" and b: "batch \<in> set (result_batches n xss)"
    and tag: "list_all2 (\<lambda>l b. \<forall>it \<in> set l. fst it = b) xss bs" and d: "distinct bs"
  shows "length batch \<le> n \<and> distinct (map fst batch) \<and> set batch \<subseteq> \<Union> (set ` set xss)"
proof -
  from b obtain r where r: "r \<in> set (zip_longest xss)"
    "batch \<in> set (chunked n (map the (filter (\<lambda>r. r \<noteq> None) r)))"
    by (auto simp: result_batches_def)
  from zip_longest_round [OF r(1)] obtain j where
    j: "r = map (\<lambda>xs. if j < length xs then Some (xs ! j) else None) xss" by blast
  let ?items = "round_items j xss"
  from chunked_chunk [OF n r(2)] j obtain k where
    k: "length batch \<le> n" "batch = take n (drop k ?items)" by (auto simp: round_items_def)
  have "distinct (map fst ?items)" using round_items_tagged [OF tag, of j] d by simp
  then have "distinct (map fst batch)" unfolding k(2) by (rule distinct_map_take_drop)
  moreover have "set batch \<subseteq> set ?items"
    unfolding k(2) by (meson set_take_subset set_drop_subset subset_trans)
  then have "set batch \<subseteq> \<Union> (set ` set xss)"
    using round_items_subset [of j xss] by blast
  ultimately show ?thesis using k(1) by simp
qed

lemma setdefault_lookup_validated:
  "setdefault bug_id [] vd = (v, vd') \<Longrightarrow>
   v = lookup_validated vd bug_id \<and> lookup_validated vd' = lookup_validated vd"
  by (auto simp: setdefault_def lookup_validated_def fun_eq_iff split: option.splits if_splits)

lemma unvalidated_items_item:
  "it \<in> set (unvalidated_items bug_id patches validated) \<Longrightarrow>
   \<exists>idx p. it = (bug_id, idx, p) \<and> \<not> is_duplicate p \<and> \<not> is_broken p
          \<and> map_of validated idx = None \<and> idx < length patches \<and> p = patches ! idx"
  by (auto simp: unvalidated_items_def in_set_enumerate_eq)

text \<open>The queues the first loop builds: one per bug that matches, in the order of the
  transformed result; every item is a patch of its bug that is not a duplicate, not
  broken and has no validation result yet.\<close>

lemma collect_unvalidated_queues:
  assumes "collect_unvalidated fullmatch td vd acc = (queues, vd')"
  shows "\<exists>new. queues = acc @ new
          \<and> list_all2 (\<lambda>l b. \<forall>it \<in> set l. fst it = b) new
               (map fst (filter (\<lambda>e. fullmatch (fst e)) td))
          \<and> (\<forall>l \<in> set new. \<forall>it \<in> set l.
                \<exists>bug_id idx p patches. it = (bug_id, idx, p) \<and> fullmatch bug_id
                  \<and> \<not> is_duplicate p \<and> \<not> is_broken p
                  \<and> map_of (lookup_validated vd bug_id) idx = None
                  \<and> (bug_id, patches) \<in> set td \<and> idx < length patches \<and> p = patches ! idx)"
  using assms
proof (induction td arbitrary: vd acc)
  case Nil
  then show ?case by simp
next
  case (Cons e td)
  obtain bug_id patches where e: "e = (bug_id, patches)" by (cases e)
  show ?case
  proof (cases "fullmatch bug_id")
    case False
    with Cons.prems have "collect_unvalidated fullmatch td vd acc = (queues, vd')"
      by (simp add: e)
    from Cons.IH [OF this] obtain new where new: "queues = acc @ new"
      "list_all2 (\<lambda>l b. \<forall>it \<in> set l. fst it = b) new
               (map fst (filter (\<lambda>e. fullmatch (fst e)) td))"
      "\<forall>l \<in> set new. \<forall>it \<in> set l.
                \<exists>bug_id idx p patches. it = (bug_id, idx, p) \<and> fullmatch bug_id
                  \<and> \<not> is_duplicate p \<and> \<not> is_broken p
                  \<and> map_of (lookup_validated vd bug_id) idx = None
                  \<and> (bug_id, patches) \<in> set td \<and> idx < length patches \<and> p = patches ! idx"
      by blast
    have "\<forall>l \<in> set new. \<forall>it \<in> set l.
                \<exists>bug_id idx p patches. it = (bug_id, idx, p) \<and> fullmatch bug_id
                  \<and> \<not> is_duplicate p \<and> \<not> is_broken p
                  \<and> map_of (lookup_validated vd bug_id) idx = None
                  \<and> (bug_id, patches) \<in> set (e # td) \<and> idx < length patches \<and> p = patches ! idx"
      using new(3) by (metis list.set_intros(2))
    then show ?thesis using new(1,2) False by (auto simp: e)
  next
    case True
    obtain v vd1 where sd: "setdefault bug_id [] vd = (v, vd1)"
      by (cases "setdefault bug_id [] vd")
    have v: "v = lookup_validated vd bug_id" and lk: "lookup_validated vd1 = lookup_validated vd"
      using setdefault_lookup_validated [OF sd] by simp_all
    let ?q = "unvalidated_items bug_id patches v"
    have "collect_unvalidated fullmatch td vd1 (acc @ [?q]) = (queues, vd')"
      using Cons.prems True sd by (simp add: e)
    from Cons.IH [OF this] obtain new where new: "queues = (acc @ [?q]) @ new"
      "list_all2 (\<lambda>l b. \<forall>it \<in> set l. fst it = b) new
               (map fst (filter (\<lambda>e. fullmatch (fst e)) td))"
      "\<forall>l \<in> set new. \<forall>it \<in> set l.
                \<exists>bug_id idx p patches. it = (bug_id, idx, p) \<and> fullmatch bug_id
                  \<and> \<not> is_duplicate p \<and> \<not> is_broken p
                  \<and> map_of (lookup_validated vd1 bug_id) idx = None
                  \<and> (bug_id, patches) \<in> set td \<and> idx < length patches \<and> p = patches ! idx"
      by blast
    have q1: "\<forall>it \<in> set ?q. fst it = bug_id"
      by (auto dest: unvalidated_items_item)
    have q2: "\<forall>it \<in> set ?q.
                \<exists>b idx p ps. it = (b, idx, p) \<and> fullmatch b
                  \<and> \<not> is_duplicate p \<and> \<not> is_broken p
                  \<and> map_of (lookup_validated vd b) idx = None
                  \<and> (b, ps) \<in> set (e # td) \<and> idx < length ps \<and> p = ps ! idx"
    proof
      fix it assume "it \<in> set ?q"
      from unvalidated_items_item [OF this] obtain idx p where
        "it = (bug_id, idx, p)" "\<not> is_duplicate p" "\<not> is_broken p"
        "map_of v idx = None" "idx < length patches" "p = patches ! idx" by blast
      then show "\<exists>b idx p ps. it = (b, idx, p) \<and> fullmatch b
                  \<and> \<not> is_duplicate p \<and> \<not> is_broken p
                  \<and> map_of (lookup_validated vd b) idx = None
                  \<and> (b, ps) \<in> set (e # td) \<and> idx < length ps \<and> p = ps ! idx"
        using True v e by auto
    qed
    have n3: "\<forall>l \<in> set new. \<forall>it \<in> set l.
                \<exists>bug_id idx p patches. it = (bug_id, idx, p) \<and> fullmatch bug_id
                  \<and> \<not> is_duplicate p \<and> \<not> is_broken p
                  \<and> map_of (lookup_validated vd bug_id) idx = None
                  \<and> (bug_id, patches) \<in> set (e # td) \<and> idx < length patches \<and> p = patches ! idx"
      using new(3) unfolding lk by (metis list.set_intros(2))
    have "queues = acc @ (?q # new)" using new(1) by simp
    moreover have "list_all2 (\<lambda>l b. \<forall>it \<in> set l. fst it = b) (?q # new)
               (map fst (filter (\<lambda>e. fullmatch (fst e)) (e # td)))"
      using new(2) q1 True by (simp add: e)
    moreover have "\<forall>l \<in> set (?q # new). \<forall>it \<in> set l.
                \<exists>bug_id idx p patches. it = (bug_id, idx, p) \<and> fullmatch bug_id
                  \<and> \<not> is_duplicate p \<and> \<not> is_broken p
                  \<and> map_of (lookup_validated vd bug_id) idx = None
                  \<and> (bug_id, patches) \<in> set (e # td) \<and> idx < length patches \<and> p = patches ! idx"
      using q2 n3 by simp
    ultimately show ?thesis by blast
  qed
qed

lemma validate_batches_dispatched:
  "validate_batches dispatch ci batches vd = (dispatched, r) \<Longrightarrow>
   set dispatched \<subseteq> set batches \<and> (\<forall>vd'. r = Inr vd' \<longrightarrow> dispatched = batches)"
proof (induction batches arbitrary: vd dispatched r)
  case Nil
  then show ?case by simp
next
  case (Cons b batches)
  show ?case
  proof (cases "length b \<noteq> len_set (map fst b)")
    case True
    then show ?thesis using Cons.prems by auto
  next
    case False
    show ?thesis
    proof (cases "dispatch b")
      case (Inl e)
      then show ?thesis using Cons.prems False by auto
    next
      case (Inr val_results)
      show ?thesis
      proof (cases "record_results ci (zip b val_results) vd")
        case (Inl e)
        then show ?thesis using Cons.prems False Inr by auto
      next
        case (Inr vd1)
        obtain d1 r1 where rec: "validate_batches dispatch ci batches vd1 = (d1, r1)"
          by (cases "validate_batches dispatch ci batches vd1")
        then have "dispatched = b # d1" "r = r1"
          using Cons.prems False \<open>dispatch b = Inr val_results\<close> Inr by simp_all
        then show ?thesis using Cons.IH [OF rec] by auto
      qed
    qed
  qed
qed

lemma transform_bug_keys:
  assumes "transform_bug tar (bug_id, files) t = Inr t'"
    and "distinct (map fst (result_dict t))"
  shows "distinct (map fst (result_dict t'))"
proof -
  obtain patches rd1 where sd1: "setdefault bug_id [] (result_dict t) = (patches, rd1)"
    by (cases "setdefault bug_id [] (result_dict t)")
  have d1: "distinct (map fst rd1)"
    using sd1 assms(2) by (auto simp: setdefault_def map_of_eq_None_iff split: option.splits)
  obtain appeared aa1 where sd2: "setdefault bug_id {} (all_appeared t) = (appeared, aa1)"
    by (cases "setdefault bug_id {} (all_appeared t)")
  from assms(1) sd1 sd2 obtain patches' where
    "result_dict t' = AList.update bug_id patches' rd1"
    by (auto simp: transform_bug_def split: sum.splits prod.splits)
  then show ?thesis using d1 by (simp add: distinct_update)
qed

lemma transform_bugs_keys:
  "transform_bugs tar raw t = Inr t' \<Longrightarrow> distinct (map fst (result_dict t)) \<Longrightarrow>
   distinct (map fst (result_dict t'))"
proof (induction raw arbitrary: t)
  case Nil
  then show ?case by simp
next
  case (Cons e raw)
  obtain b f where e: "e = (b, f)" by (cases e)
  from Cons.prems(1) obtain t1 where
    t1: "transform_bug tar (b, f) t = Inr t1" "transform_bugs tar raw t1 = Inr t'"
    by (auto simp: e split: sum.splits)
  show ?case
    by (rule Cons.IH [OF t1(2) transform_bug_keys [OF t1(1) Cons.prems(2)]])
qed

lemma transform_if_not_performed_keys:
  assumes "transform_if_not_performed tar rep = Inr rep1"
    and "\<forall>t. transformed_result rep = Some t \<longrightarrow> distinct (map fst (result_dict t))"
    and "transformed_result rep1 = Some t1"
  shows "distinct (map fst (result_dict t1)) \<and> validation_result rep1 = validation_result rep"
proof (cases "transformed_result rep")
  case None
  with assms(1) have "transform tar rep = Inr rep1"
    by (simp add: transform_if_not_performed_def)
  with None assms(3) have
    "transform_bugs tar (repair_result rep) \<lparr> result_dict = [], all_appeared = [] \<rparr> = Inr t1"
    "validation_result rep1 = validation_result rep"
    by (auto simp: transform_def split: sum.splits)
  then show ?thesis using transform_bugs_keys [of tar _ _ t1] by fastforce
next
  case (Some t)
  with assms show ?thesis by (simp add: transform_if_not_performed_def)
qed

text \<open>
  Claim C5. In every execution of \<open>validate\<close> with at least one core, on a report whose
  transformed result (if it has one) has one entry per bug: every batch dispatched to the
  pool has at most \<open>n_cores\<close> items and no two items of the same bug; and every item
  \<open>(bug_id, rank, patch)\<close> of such a batch is the patch of that rank of that bug in the
  transformed result, is not a duplicate, is not broken, and had no validation result in
  the report, under any earlier validation config.
\<close>

theorem validate_chunks:
  assumes run: "validate E tar dispatch config rep = (dispatched, r)"
    and cores: "0 < n_cores config"
    and keys: "\<forall>t. transformed_result rep = Some t \<longrightarrow> distinct (map fst (result_dict t))"
    and batch: "batch \<in> set dispatched"
  shows "length batch \<le> n_cores config
       \<and> distinct (map fst batch)
       \<and> (\<forall>(bug_id, idx, p) \<in> set batch.
            \<not> is_duplicate p \<and> \<not> is_broken p \<and> \<not> validated_in rep bug_id idx
            \<and> (\<exists>rep1 t patches.
                  transform_if_not_performed tar rep = Inr rep1
                  \<and> transformed_result rep1 = Some t
                  \<and> map_of (result_dict t) bug_id = Some patches
                  \<and> idx < length patches \<and> p = patches ! idx))"
proof -
  have ne: "dispatched \<noteq> []" using batch by auto
  from run ne obtain rep1 where rep1: "transform_if_not_performed tar rep = Inr rep1"
    by (cases "transform_if_not_performed tar rep") (auto simp: validate_def)
  from run ne rep1 obtain fullmatch where fm: "re_compile E (val_bug_pattern config) = Some fullmatch"
    by (cases "re_compile E (val_bug_pattern config)") (auto simp: validate_def)
  from run ne rep1 fm obtain t where t: "transformed_result rep1 = Some t"
    by (cases "transformed_result rep1") (auto simp: validate_def)
  let ?vr0 = "case validation_result rep1 of
                None \<Rightarrow> \<lparr> validation_configs = [], val_result_dict = [] \<rparr> | Some v \<Rightarrow> v"
  obtain queues vd1 where
    col: "collect_unvalidated fullmatch (result_dict t) (val_result_dict ?vr0) [] = (queues, vd1)"
    by (cases "collect_unvalidated fullmatch (result_dict t) (val_result_dict ?vr0) []")
  obtain d2 r2 where
    vb: "validate_batches dispatch (length (validation_configs ?vr0 @ [config]) - 1)
           (result_batches (n_cores config) queues) vd1 = (d2, r2)"
    by (cases "validate_batches dispatch (length (validation_configs ?vr0 @ [config]) - 1)
           (result_batches (n_cores config) queues) vd1")
  have "dispatched = d2"
    using run rep1 fm t col vb by (cases r2) (simp_all add: validate_def Let_def)
  then have mem: "batch \<in> set (result_batches (n_cores config) queues)"
    using validate_batches_dispatched [OF vb] batch by auto
  have dk: "distinct (map fst (result_dict t))"
    and vr: "validation_result rep1 = validation_result rep"
    using transform_if_not_performed_keys [OF rep1 keys t] by simp_all
  from collect_unvalidated_queues [OF col] have
    tag: "list_all2 (\<lambda>l b. \<forall>it \<in> set l. fst it = b) queues
               (map fst (filter (\<lambda>e. fullmatch (fst e)) (result_dict t)))"
    and items: "\<forall>l \<in> set queues. \<forall>it \<in> set l.
                \<exists>bug_id idx p patches. it = (bug_id, idx, p) \<and> fullmatch bug_id
                  \<and> \<not> is_duplicate p \<and> \<not> is_broken p
                  \<and> map_of (lookup_validated (val_result_dict ?vr0) bug_id) idx = None
                  \<and> (bug_id, patches) \<in> set (result_dict t)
                  \<and> idx < length patches \<and> p = patches ! idx"
    by simp_all
  have dq: "distinct (map fst (filter (\<lambda>e. fullmatch (fst e)) (result_dict t)))"
    using dk by (simp add: distinct_map_filter)
  from result_batches_batch [OF cores mem tag dq] have
    len: "length batch \<le> n_cores config" and dis: "distinct (map fst batch)"
    and sub: "set batch \<subseteq> \<Union> (set ` set queues)" by simp_all
  have "\<not> is_duplicate p \<and> \<not> is_broken p \<and> \<not> validated_in rep bug_id idx
            \<and> (\<exists>rep1 t patches.
                  transform_if_not_performed tar rep = Inr rep1
                  \<and> transformed_result rep1 = Some t
                  \<and> map_of (result_dict t) bug_id = Some patches
                  \<and> idx < length patches \<and> p = patches ! idx)"
    if "(bug_id, idx, p) \<in> set batch" for bug_id idx p
  proof -
    from that sub obtain l where "l \<in> set queues" "(bug_id, idx, p) \<in> set l" by auto
    with items obtain patches where
      i: "\<not> is_duplicate p" "\<not> is_broken p"
         "map_of (lookup_validated (val_result_dict ?vr0) bug_id) idx = None"
         "(bug_id, patches) \<in> set (result_dict t)" "idx < length patches" "p = patches ! idx"
      by fastforce
    have "map_of (result_dict t) bug_id = Some patches"
      using dk i(4) by simp
    moreover have "\<not> validated_in rep bug_id idx"
      using i(3) vr
      by (auto simp: validated_in_def lookup_validated_def split: option.splits)
    ultimately show ?thesis using i rep1 t by blast
  qed
  then show ?thesis using len dis by blast
qed

lemma example_validate_dispatched:
  "fst (validate quiet_env (\<lambda>b. b) example_dispatch example_validation_config
          example_validation_report) = example_batches"
  by (simp add: validate_def transform_if_not_performed_def example_validation_report_def
      quiet_env_def example_validation_config_def example_transformed_def setdefault_def
      unvalidated_items_def is_broken_def any_hunk_is_None_def example_candidate_def avg_def
      result_batches_def zip_longest_def upt_rec chunked.simps len_set_def
      example_dispatch_def example_batches_def enumerate_eq_zip Let_def split: prod.splits)

theorem validate_chunks_witness:
  "fst (validate quiet_env (\<lambda>b. b) example_dispatch example_validation_config
          example_validation_report) = example_batches
   \<and> 0 < n_cores example_validation_config
   \<and> distinct (map fst (result_dict (the (transformed_result example_validation_report))))
   \<and> example_batches ! 0 \<in> set example_batches
   \<and> length (example_batches ! 0) \<le> n_cores example_validation_config
   \<and> distinct (map fst (example_batches ! 0))
   \<and> map fst (example_batches ! 0) = [''Lang-1'', ''Lang-2'']"
proof -
  have run: "validate quiet_env (\<lambda>b. b) example_dispatch example_validation_config
          example_validation_report =
       (example_batches, snd (validate quiet_env (\<lambda>b. b) example_dispatch
          example_validation_config example_validation_report))"
    using example_validate_dispatched by (metis prod.collapse)
  have cores: "0 < n_cores example_validation_config"
    by (simp add: example_validation_config_def)
  have keys: "\<forall>t. transformed_result example_validation_report = Some t
          \<longrightarrow> distinct (map fst (result_dict t))"
    by (simp add: example_validation_report_def example_transformed_def)
  have mem: "example_batches ! 0 \<in> set example_batches"
    by (simp add: example_batches_def)
  show ?thesis
    using validate_chunks [OF run cores keys mem] example_validate_dispatched cores mem
    by (simp add: example_batches_def example_validation_report_def example_transformed_def)
qed

subsection \<open>Validation of one patch\<close>

lemma materialize_Inr:
  "materialize cp E w pfs = Inr files \<Longrightarrow> files = map (\<lambda>pf. the (cp pf)) pfs"
  by (induction pfs arbitrary: files) (auto split: option.splits if_splits sum.splits)

lemma checkout_events_trace:
  "checkout E d bug_id buggy w = (Inr u, w') \<Longrightarrow> w' = w @ checkout_events d bug_id buggy"
  by (drule checkout_trace) (auto simp: checkout_events_def)

lemma recognized_error_simps:
  "javalang_parse E (content f) = Parsed \<Longrightarrow> recognized_error E f = None"
  "javalang_parse E (content f) = UnexpectedException ty m \<Longrightarrow> recognized_error E f = None"
  "javalang_parse E (content f) = JavaSyntaxError m \<Longrightarrow> recognized_error E f = Some m"
  "javalang_parse E (content f) = LexerError m \<Longrightarrow> recognized_error E f = Some m"
  by (simp_all add: recognized_error_def)

lemma write_events_Cons_accepted:
  "recognized_error E f = None \<Longrightarrow>
   write_events E (f # fs) =
     (case javalang_parse E (content f) of
        UnexpectedException ty msg \<Rightarrow> [log_unexpected ty msg] | _ \<Rightarrow> [])
     @ [write_file f] @ write_events E fs"
  by (simp add: write_events_def)

text \<open>The second loop: it returns a \<open>ParseError\<close> at the first file the parser refuses,
  having written the files before it and nothing else; or it ends, having written all
  the files.\<close>

lemma parse_and_write_Inr:
  "parse_and_write E st files w = (Inr ret, w') \<Longrightarrow>
   (case ret of
      Some res \<Rightarrow>
        (\<exists>i<length files.
            recognized_error E (files ! i) = Some (stderr res)
            \<and> (\<forall>j<i. recognized_error E (files ! j) = None)
            \<and> w' = w @ write_events E (take i files))
        \<and> outcome res = ParseError \<and> stdout res = ''''
        \<and> first_recognized_error E files = Some (stderr res)
    | None \<Rightarrow> first_recognized_error E files = None \<and> w' = w @ write_events E files)"
proof (induction files arbitrary: w)
  case Nil
  then show ?case by (simp add: return_io_def write_events_def)
next
  case (Cons f fs)
  show ?case
  proof (cases "recognized_error E f")
    case (Some msg)
    then have "ret = Some \<lparr> outcome = ParseError, time_cost = perf_counter E w - st,
                             stdout = '''', stderr = msg \<rparr> \<and> w' = w"
      using Cons.prems by (auto simp: recognized_error_def split: parse_outcome.splits)
    moreover have "\<exists>i<length (f # fs).
            recognized_error E ((f # fs) ! i) = Some msg
            \<and> (\<forall>j<i. recognized_error E ((f # fs) ! j) = None)
            \<and> w = w @ write_events E (take i (f # fs))"
      using Some by (intro exI [of _ 0]) (simp add: write_events_def)
    ultimately show ?thesis using Some by simp
  next
    case None
    let ?pre = "(case javalang_parse E (content f) of
        UnexpectedException ty msg \<Rightarrow> [log_unexpected ty msg] | _ \<Rightarrow> []) @ [write_file f]"
    have step: "parse_and_write E st fs (w @ ?pre) = (Inr ret, w')"
      using Cons.prems None
      by (auto simp: recognized_error_def bind_io_def issue_def
          split: parse_outcome.splits option.splits prod.splits sum.splits)
    have we: "write_events E (f # fs) = ?pre @ write_events E fs"
      using write_events_Cons_accepted [OF None] by simp
    show ?thesis
    proof (cases ret)
      case None' : None
      then show ?thesis using Cons.IH [OF step] None we by simp
    next
      case (Some res)
      with Cons.IH [OF step] obtain i where
        i: "i < length fs" "recognized_error E (fs ! i) = Some (stderr res)"
           "\<forall>j<i. recognized_error E (fs ! j) = None"
           "w' = (w @ ?pre) @ write_events E (take i fs)"
        and rest: "outcome res = ParseError" "stdout res = ''''"
           "first_recognized_error E fs = Some (stderr res)"
        by auto
      have "Suc i < length (f # fs)
            \<and> recognized_error E ((f # fs) ! Suc i) = Some (stderr res)
            \<and> (\<forall>j<Suc i. recognized_error E ((f # fs) ! j) = None)
            \<and> w' = w @ write_events E (take (Suc i) (f # fs))"
        using i None write_events_Cons_accepted [OF None, of "take i fs"]
        by (auto simp: less_Suc_eq_0_disj)
      then have "\<exists>i<length (f # fs).
            recognized_error E ((f # fs) ! i) = Some (stderr res)
            \<and> (\<forall>j<i. recognized_error E ((f # fs) ! j) = None)
            \<and> w' = w @ write_events E (take i (f # fs))"
        by blast
      then show ?thesis using Some rest None by simp
    qed
  qed
qed

lemma compile_and_test_outcome:
  "compile_and_test E d bug_id st w = (Inr res, w') \<Longrightarrow> outcome res \<noteq> ParseError"
  by (auto simp: compile_and_test_def bind_io_def
      split: prod.splits sum.splits if_splits error.splits)

text \<open>The stages of a run of \<open>validate_patch\<close> that returns a result.\<close>

lemma validate_patch_Inr:
  assumes "validate_patch cp E d bug_id patch w = (Inr res, w')"
  shows "\<exists>w2 ret.
           parse_and_write E (perf_counter E w) (candidate_files cp patch)
             (w @ checkout_events d bug_id False) = (Inr ret, w2)
           \<and> (case ret of
                 Some res' \<Rightarrow> res' = res \<and> w' = w2
               | None \<Rightarrow> compile_and_test E d bug_id (perf_counter E w) w2 = (Inr res, w'))"
proof -
  from assms have nd: "\<not> is_duplicate patch"
    by (auto simp: validate_patch_def Let_def split: if_splits)
  from assms nd obtain files where m: "materialize cp E w (file_patches patch) = Inr files"
    by (cases "materialize cp E w (file_patches patch)") (auto simp: validate_patch_def Let_def)
  have files: "files = candidate_files cp patch"
    using materialize_Inr [OF m] by (simp add: candidate_files_def)
  from assms nd m have ls: "len_set (map tf_path files) = 1"
    by (auto simp: validate_patch_def Let_def split: if_splits)
  have rest: "bind_io (checkout E d bug_id False) (\<lambda>_.
                bind_io (parse_and_write E (perf_counter E w) files) (\<lambda>returned.
                  (case returned of
                     Some res \<Rightarrow> return_io res
                   | None \<Rightarrow> compile_and_test E d bug_id (perf_counter E w)))) w = (Inr res, w')"
    using assms nd m ls by (simp add: validate_patch_def Let_def)
  from bind_io_Inr [OF rest] obtain u w1 where
    co: "checkout E d bug_id False w = (Inr u, w1)"
    and r2: "bind_io (parse_and_write E (perf_counter E w) files) (\<lambda>returned.
                  (case returned of
                     Some res \<Rightarrow> return_io res
                   | None \<Rightarrow> compile_and_test E d bug_id (perf_counter E w))) w1 = (Inr res, w')"
    by blast
  have w1: "w1 = w @ checkout_events d bug_id False"
    using checkout_events_trace [OF co] .
  from bind_io_Inr [OF r2] obtain ret w2 where
    pw: "parse_and_write E (perf_counter E w) files w1 = (Inr ret, w2)"
    and r3: "(case ret of
                Some res \<Rightarrow> return_io res
              | None \<Rightarrow> compile_and_test E d bug_id (perf_counter E w)) w2 = (Inr res, w')"
    by blast
  have "case ret of
          Some res' \<Rightarrow> res' = res \<and> w' = w2
        | None \<Rightarrow> compile_and_test E d bug_id (perf_counter E w) w2 = (Inr res, w')"
    using r3 by (cases ret) (auto simp: return_io_def)
  then show ?thesis using pw w1 files by blast
qed

lemma no_compile_or_test_checkout:
  "list_all (\<lambda>ev. \<not> is_compile_or_test ev) (checkout_events d bug_id buggy)"
  by (simp add: checkout_events_def d4j_checkout_cmd_def split: option.splits sum.splits)

lemma no_compile_or_test_writes:
  "list_all (\<lambda>ev. \<not> is_compile_or_test ev) (write_events E fs)"
  by (induction fs)
     (auto simp: write_events_def write_file_def log_unexpected_def split: parse_outcome.splits)

text \<open>A \<open>failing_tests\<close> file of a no-break space, a next-line character and a blank
  strips to the empty string.\<close>

lemma strip_is_empty_latin1_spaces:
  "strip_is_empty [char_of (160 :: nat), char_of (133 :: nat), CHR '' '']"
  by (simp add: strip_is_empty_def is_space_def)

text \<open>The second loop when no write to a file raises: it returns, at the first file the
  parser refuses or at the end of the files.\<close>

lemma parse_and_write_total:
  assumes wr: "\<forall>w ev. is_file_write ev \<longrightarrow> raises E w ev = None"
  shows "parse_and_write E st files w =
     (case first_recognized_error E files of
        None \<Rightarrow> (Inr None, w @ write_events E files)
      | Some msg \<Rightarrow>
          (Inr (Some \<lparr> outcome = ParseError,
                       time_cost =
                         perf_counter E (w @ write_events E (accepted_prefix E files)) - st,
                       stdout = '''', stderr = msg \<rparr>),
           w @ write_events E (accepted_prefix E files)))"
proof (induction files arbitrary: w)
  case Nil
  show ?case by (simp add: return_io_def write_events_def)
next
  case (Cons f fs)
  have w1: "issue E (write_file f) w' = (Inr (completed E w' (write_file f)), w' @ [write_file f])"
    for w'
    using wr by (simp add: issue_def write_file_def)
  have w2: "issue E (log_unexpected ty msg) w'
      = (Inr (completed E w' (log_unexpected ty msg)), w' @ [log_unexpected ty msg])"
    for w' ty msg
    using wr by (simp add: issue_def log_unexpected_def)
  show ?case
  proof (cases "javalang_parse E (content f)")
    case Parsed
    then have r: "recognized_error E f = None" by (simp add: recognized_error_def)
    have "parse_and_write E st (f # fs) w = parse_and_write E st fs (w @ [write_file f])"
      using Parsed by (simp add: bind_io_def w1)
    moreover have "write_events E (f # fs') = [write_file f] @ write_events E fs'" for fs'
      using Parsed by (simp add: write_events_def)
    ultimately show ?thesis
      using r Cons.IH [of "w @ [write_file f]"]
      by (simp add: accepted_prefix_def split: option.splits)
  next
    case (UnexpectedException ty msg)
    then have r: "recognized_error E f = None" by (simp add: recognized_error_def)
    have "parse_and_write E st (f # fs) w
        = parse_and_write E st fs (w @ [log_unexpected ty msg, write_file f])"
      using UnexpectedException by (simp add: bind_io_def w1 w2)
    moreover have "write_events E (f # fs')
        = [log_unexpected ty msg, write_file f] @ write_events E fs'" for fs'
      using UnexpectedException by (simp add: write_events_def)
    ultimately show ?thesis
      using r Cons.IH [of "w @ [log_unexpected ty msg, write_file f]"]
      by (simp add: accepted_prefix_def split: option.splits)
  next
    case (JavaSyntaxError msg)
    then have r: "recognized_error E f = Some msg" by (simp add: recognized_error_def)
    then show ?thesis using JavaSyntaxError
      by (simp add: accepted_prefix_def write_events_def)
  next
    case (LexerError msg)
    then have r: "recognized_error E f = Some msg" by (simp add: recognized_error_def)
    then show ?thesis using LexerError
      by (simp add: accepted_prefix_def write_events_def)
  qed
qed

text \<open>
  Claim C1. Take a candidate patch that is not a duplicate, whose files materialize to
  existing files of one path, a checkout of the fixed revision that returns, and file
  writes that do not raise. Then \<open>validate_patch\<close> returns a result in each of these
  cases, and the result is: if the text of a candidate file raises a syntax or lexer
  error of the parser, \<open>ParseError\<close> with empty stdout and the text of the (first such)
  error as stderr, and no compile or test command has been issued; if no text does and
  \<open>compile\<close> returns a failure, \<open>CompilationError\<close> with the output of the compilation;
  if no text does, \<open>compile\<close> returns a success and \<open>test\<close> raises a timeout,
  \<open>TestingError\<close> with, on stdout and on stderr, the output of the compilation followed
  by the separator and the text \<open>Timeout\<close>.
\<close>

theorem validate_patch_outcomes:
  assumes nd: "\<not> is_duplicate patch"
    and mat: "materialize cp E w (file_patches patch) = Inr files"
    and one: "len_set (map tf_path files) = 1"
    and co: "checkout E d bug_id False w = (Inr (), w1)"
    and wr: "\<forall>w ev. is_file_write ev \<longrightarrow> raises E w ev = None"
  shows "(\<forall>msg. first_recognized_error E files = Some msg \<longrightarrow>
            validate_patch cp E d bug_id patch w =
              (Inr \<lparr> outcome = ParseError,
                     time_cost = perf_counter E (w1 @ write_events E (accepted_prefix E files))
                                   - perf_counter E w,
                     stdout = '''', stderr = msg \<rparr>,
               w1 @ write_events E (accepted_prefix E files))
            \<and> list_all (\<lambda>ev. \<not> is_compile_or_test ev)
                  (drop (length w) (w1 @ write_events E (accepted_prefix E files))))
       \<and> (\<forall>out err wc'.
            first_recognized_error E files = None
            \<and> compile E d bug_id (w1 @ write_events E files) = (Inr (False, out, err), wc') \<longrightarrow>
            validate_patch cp E d bug_id patch w =
              (Inr \<lparr> outcome = CompilationError,
                     time_cost = perf_counter E wc' - perf_counter E w,
                     stdout = out, stderr = err \<rparr>, wc'))
       \<and> (\<forall>out err wc' wt.
            first_recognized_error E files = None
            \<and> compile E d bug_id (w1 @ write_events E files) = (Inr (True, out, err), wc')
            \<and> test E d bug_id 180 wc' = (Inl TimeoutExpired, wt) \<longrightarrow>
            validate_patch cp E d bug_id patch w =
              (Inr \<lparr> outcome = TestingError,
                     time_cost = perf_counter E wt - perf_counter E w,
                     stdout = out @ RULE E @ ''Timeout'',
                     stderr = err @ RULE E @ ''Timeout'' \<rparr>, wt))"
proof -
  let ?st = "perf_counter E w"
  have vp: "validate_patch cp E d bug_id patch w =
      (case parse_and_write E ?st files w1 of
         (Inl e, w2) \<Rightarrow> (Inl e, w2)
       | (Inr returned, w2) \<Rightarrow>
           (case returned of
              Some res \<Rightarrow> return_io res
            | None \<Rightarrow> compile_and_test E d bug_id ?st) w2)"
    using nd mat one co by (simp add: validate_patch_def Let_def bind_io_def)
  note pw = parse_and_write_total [OF wr, of ?st files w1]
  have w1: "w1 = w @ checkout_events d bug_id False"
    using checkout_events_trace [OF co] .
  have a: "validate_patch cp E d bug_id patch w =
              (Inr \<lparr> outcome = ParseError,
                     time_cost = perf_counter E (w1 @ write_events E (accepted_prefix E files))
                                   - perf_counter E w,
                     stdout = '''', stderr = msg \<rparr>,
               w1 @ write_events E (accepted_prefix E files))
            \<and> list_all (\<lambda>ev. \<not> is_compile_or_test ev)
                  (drop (length w) (w1 @ write_events E (accepted_prefix E files)))"
    if "first_recognized_error E files = Some msg" for msg
  proof -
    have "drop (length w) (w1 @ write_events E (accepted_prefix E files))
        = checkout_events d bug_id False @ write_events E (accepted_prefix E files)"
      by (simp add: w1)
    then have "list_all (\<lambda>ev. \<not> is_compile_or_test ev)
                  (drop (length w) (w1 @ write_events E (accepted_prefix E files)))"
      using no_compile_or_test_checkout [of d bug_id False]
        no_compile_or_test_writes [of E "accepted_prefix E files"] by simp
    then show ?thesis using that by (simp add: vp pw return_io_def)
  qed
  have none: "validate_patch cp E d bug_id patch w
      = compile_and_test E d bug_id ?st (w1 @ write_events E files)"
    if "first_recognized_error E files = None"
    using that by (simp add: vp pw)
  have b: "validate_patch cp E d bug_id patch w =
              (Inr \<lparr> outcome = CompilationError,
                     time_cost = perf_counter E wc' - perf_counter E w,
                     stdout = out, stderr = err \<rparr>, wc')"
    if h1: "first_recognized_error E files = None"
      and h2: "compile E d bug_id (w1 @ write_events E files) = (Inr (False, out, err), wc')"
    for out err wc'
    using h2 by (simp add: none [OF h1] compile_and_test_def bind_io_def)
  have c: "validate_patch cp E d bug_id patch w =
              (Inr \<lparr> outcome = TestingError,
                     time_cost = perf_counter E wt - perf_counter E w,
                     stdout = out @ RULE E @ ''Timeout'',
                     stderr = err @ RULE E @ ''Timeout'' \<rparr>, wt)"
    if h1: "first_recognized_error E files = None"
      and h2: "compile E d bug_id (w1 @ write_events E files) = (Inr (True, out, err), wc')"
      and h3: "test E d bug_id 180 wc' = (Inl TimeoutExpired, wt)"
    for out err wc' wt
    using h2 h3 by (simp add: none [OF h1] compile_and_test_def bind_io_def)
  show ?thesis using a b c by blast
qed

text \<open>
  Claim C10, as the code has it. When \<open>validate_patch\<close> returns \<open>ParseError\<close>, one of the
  candidate files is the first the parser refuses with a syntax or lexer error; what the
  call has issued is the checkout of the fixed revision followed by the writes of the
  candidate files before that one (with the note for each of them on which the parser
  raised another exception): that file and the files after it have not been written. For
  a patch with a single file nothing has been written: the call has issued the checkout
  and nothing else.
\<close>

theorem parse_error_writes:
  assumes run: "validate_patch cp E d bug_id patch w = (Inr res, w')"
    and pe: "outcome res = ParseError"
  shows "\<exists>i<length (candidate_files cp patch).
           recognized_error E (candidate_files cp patch ! i) = Some (stderr res)
           \<and> (\<forall>j<i. recognized_error E (candidate_files cp patch ! j) = None)
           \<and> w' = w @ checkout_events d bug_id False
                    @ write_events E (take i (candidate_files cp patch))
           \<and> (length (file_patches patch) = 1 \<longrightarrow> w' = w @ checkout_events d bug_id False)"
proof -
  let ?files = "candidate_files cp patch"
  from validate_patch_Inr [OF run] obtain w2 ret where
    pw: "parse_and_write E (perf_counter E w) ?files (w @ checkout_events d bug_id False)
           = (Inr ret, w2)"
    and fin: "case ret of
                Some res' \<Rightarrow> res' = res \<and> w' = w2
              | None \<Rightarrow> compile_and_test E d bug_id (perf_counter E w) w2 = (Inr res, w')"
    by blast
  have "ret = Some res \<and> w' = w2"
  proof (cases ret)
    case None
    then show ?thesis using fin compile_and_test_outcome pe by fastforce
  next
    case (Some res')
    then show ?thesis using fin by simp
  qed
  with parse_and_write_Inr [OF pw] obtain i where
    i: "i < length ?files" "recognized_error E (?files ! i) = Some (stderr res)"
       "\<forall>j<i. recognized_error E (?files ! j) = None"
       "w' = (w @ checkout_events d bug_id False) @ write_events E (take i ?files)"
    by auto
  have "w' = w @ checkout_events d bug_id False" if "length (file_patches patch) = 1"
  proof -
    have "i = 0" using i(1) that by (simp add: candidate_files_def)
    then show ?thesis using i(4) by (simp add: write_events_def)
  qed
  then show ?thesis using i by auto
qed

lemmas example_validate_patch_defs =
  validate_patch_def example_patch_of_def example_candidate_def avg_def example_compute_patch_def
  example_text_file_def len_set_def example_d4j_def example_bug_def checkout_def
  split_bug_id_def bind_io_def issue_def return_io_def raise_io_def d4j_checkout_cmd_def
  d4j_executable_def d4j_executable_of_def path_join_def git_reset_def git_clean_def
  write_file_def log_unexpected_def compile_and_test_def compile_def test_def
  test_with_option_def example_checkout_events_def quiet_env_def startswith_def
  strip_is_empty_def Let_def

lemma example_run_parse_error:
  "validate_patch example_compute_patch env_parse_error example_d4j ''Lang-1''
     (example_patch_of [''bad'']) [] =
   (Inr \<lparr> outcome = ParseError, time_cost = 6, stdout = '''', stderr = ''no'' \<rparr>,
    example_checkout_events)"
  by (simp add: example_validate_patch_defs env_parse_error_def)

lemma example_run_two_files:
  "validate_patch example_compute_patch env_parse_error example_d4j ''Lang-1''
     (example_patch_of [''ok'', ''bad'']) [] =
   (Inr \<lparr> outcome = ParseError, time_cost = 7, stdout = '''', stderr = ''no'' \<rparr>,
    example_checkout_events @ [WriteFile ''/co/Lang-1/src/Foo.java'' ''ok''])"
  by (simp add: example_validate_patch_defs env_parse_error_def)

lemma example_run_compile_fails:
  "validate_patch example_compute_patch env_compile_fails example_d4j ''Lang-1''
     (example_patch_of [''ok'']) [] =
   (Inr \<lparr> outcome = CompilationError, time_cost = 8, stdout = ''out'', stderr = ''FAIL'' \<rparr>,
    example_checkout_events @
    [WriteFile ''/co/Lang-1/src/Foo.java'' ''ok'',
     SubprocessRun [''/d4j/framework/bin/defects4j'', ''compile'']
       (Some ''/co/Lang-1'') (Some ''/jdk'') None])"
  by (simp add: example_validate_patch_defs env_compile_fails_def)

lemma example_run_timeout:
  "validate_patch example_compute_patch env_timeout example_d4j ''Lang-1''
     (example_patch_of [''ok'']) [] =
   (Inr \<lparr> outcome = TestingError, time_cost = 9,
          stdout = ''----Timeout'', stderr = ''----Timeout'' \<rparr>,
    example_checkout_events @
    [WriteFile ''/co/Lang-1/src/Foo.java'' ''ok'',
     SubprocessRun [''/d4j/framework/bin/defects4j'', ''compile'']
       (Some ''/co/Lang-1'') (Some ''/jdk'') None,
     SubprocessRun [''/d4j/framework/bin/defects4j'', ''test'', ''-r'']
       (Some ''/co/Lang-1'') (Some ''/jdk'') (Some 180)])"
  by (simp add: example_validate_patch_defs env_timeout_def)

theorem validate_patch_outcomes_witness:
  "\<not> is_duplicate (example_patch_of [''bad''])
   \<and> materialize example_compute_patch env_parse_error []
        (file_patches (example_patch_of [''bad'']))
       = Inr [example_text_file \<lparr> content := ''bad'' \<rparr>]
   \<and> len_set (map tf_path [example_text_file \<lparr> content := ''bad'' \<rparr>]) = 1
   \<and> checkout env_parse_error example_d4j ''Lang-1'' False [] = (Inr (), example_checkout_events)
   \<and> first_recognized_error env_parse_error [example_text_file \<lparr> content := ''bad'' \<rparr>]
       = Some ''no''
   \<and> validate_patch example_compute_patch env_parse_error example_d4j ''Lang-1''
        (example_patch_of [''bad'']) [] =
      (Inr \<lparr> outcome = ParseError, time_cost = 6, stdout = '''', stderr = ''no'' \<rparr>,
       example_checkout_events)
   \<and> list_all (\<lambda>ev. \<not> is_compile_or_test ev) example_checkout_events
   \<and> materialize example_compute_patch env_compile_fails []
        (file_patches (example_patch_of [''ok'']))
       = Inr [example_text_file \<lparr> content := ''ok'' \<rparr>]
   \<and> first_recognized_error env_compile_fails [example_text_file \<lparr> content := ''ok'' \<rparr>] = None
   \<and> fst (compile env_compile_fails example_d4j ''Lang-1''
        (example_checkout_events @ [WriteFile ''/co/Lang-1/src/Foo.java'' ''ok'']))
       = Inr (False, ''out'', ''FAIL'')
   \<and> fst (validate_patch example_compute_patch env_compile_fails example_d4j ''Lang-1''
        (example_patch_of [''ok'']) []) =
       Inr \<lparr> outcome = CompilationError, time_cost = 8, stdout = ''out'', stderr = ''FAIL'' \<rparr>
   \<and> first_recognized_error env_timeout [example_text_file \<lparr> content := ''ok'' \<rparr>] = None
   \<and> fst (compile env_timeout example_d4j ''Lang-1''
        (example_checkout_events @ [WriteFile ''/co/Lang-1/src/Foo.java'' ''ok'']))
       = Inr (True, '''', '''')
   \<and> fst (test env_timeout example_d4j ''Lang-1'' 180
        (snd (compile env_timeout example_d4j ''Lang-1''
           (example_checkout_events @ [WriteFile ''/co/Lang-1/src/Foo.java'' ''ok'']))))
       = Inl TimeoutExpired
   \<and> fst (validate_patch example_compute_patch env_timeout example_d4j ''Lang-1''
        (example_patch_of [''ok'']) []) =
       Inr \<lparr> outcome = TestingError, time_cost = 9,
              stdout = ''----Timeout'', stderr = ''----Timeout'' \<rparr>"
proof -
  let ?bad = "example_text_file \<lparr> content := ''bad'' \<rparr>"
  let ?ok = "example_text_file \<lparr> content := ''ok'' \<rparr>"
  let ?wc = "example_checkout_events @ [WriteFile ''/co/Lang-1/src/Foo.java'' ''ok'']"
  let ?wc' = "example_checkout_events @ [WriteFile ''/co/Lang-1/src/Foo.java'' ''ok'',
            SubprocessRun [''/d4j/framework/bin/defects4j'', ''compile'']
              (Some ''/co/Lang-1'') (Some ''/jdk'') None]"
  let ?wt = "example_checkout_events @ [WriteFile ''/co/Lang-1/src/Foo.java'' ''ok'',
            SubprocessRun [''/d4j/framework/bin/defects4j'', ''compile'']
              (Some ''/co/Lang-1'') (Some ''/jdk'') None,
            SubprocessRun [''/d4j/framework/bin/defects4j'', ''test'', ''-r'']
              (Some ''/co/Lang-1'') (Some ''/jdk'') (Some 180)]"
  have nd: "\<not> is_duplicate (example_patch_of texts)" for texts
    by (simp add: example_patch_of_def)
  have mat: "materialize example_compute_patch E [] (file_patches (example_patch_of [s]))
      = Inr [example_text_file \<lparr> content := s \<rparr>]"
    if "read_file E = (\<lambda>w p. Some '''')" for E s
    using that
    by (simp add: example_patch_of_def example_candidate_def avg_def example_compute_patch_def)
  have rf: "read_file env_parse_error = (\<lambda>w p. Some '''')"
    "read_file env_compile_fails = (\<lambda>w p. Some '''')"
    "read_file env_timeout = (\<lambda>w p. Some '''')"
    by (simp_all add: env_parse_error_def env_compile_fails_def env_timeout_def quiet_env_def)
  have one: "len_set (map tf_path [example_text_file \<lparr> content := s \<rparr>]) = 1" for s
    by (simp add: len_set_def)
  have coa: "checkout env_parse_error example_d4j ''Lang-1'' False []
      = (Inr (), example_checkout_events)"
    and cob: "checkout env_compile_fails example_d4j ''Lang-1'' False []
      = (Inr (), example_checkout_events)"
    and coc: "checkout env_timeout example_d4j ''Lang-1'' False []
      = (Inr (), example_checkout_events)"
    by (simp_all add: example_validate_patch_defs env_parse_error_def env_compile_fails_def
        env_timeout_def)
  have wra: "\<forall>w ev. is_file_write ev \<longrightarrow> raises env_parse_error w ev = None"
    and wrb: "\<forall>w ev. is_file_write ev \<longrightarrow> raises env_compile_fails w ev = None"
    by (simp_all add: env_parse_error_def env_compile_fails_def quiet_env_def)
  have wrc: "\<forall>w ev. is_file_write ev \<longrightarrow> raises env_timeout w ev = None"
    by (auto simp: env_timeout_def quiet_env_def split: event.splits option.splits)
  have fa: "first_recognized_error env_parse_error [?bad] = Some ''no''"
    by (simp add: recognized_error_def env_parse_error_def quiet_env_def)
  have fb: "first_recognized_error env_compile_fails [?ok] = None"
    and fc: "first_recognized_error env_timeout [?ok] = None"
    by (simp_all add: recognized_error_def env_compile_fails_def env_timeout_def quiet_env_def)
  have web: "write_events env_compile_fails [?ok] = [WriteFile ''/co/Lang-1/src/Foo.java'' ''ok'']"
    and wec: "write_events env_timeout [?ok] = [WriteFile ''/co/Lang-1/src/Foo.java'' ''ok'']"
    by (simp_all add: write_events_def write_file_def example_text_file_def
        env_compile_fails_def env_timeout_def quiet_env_def)
  have cb: "compile env_compile_fails example_d4j ''Lang-1'' ?wc
       = (Inr (False, ''out'', ''FAIL''), ?wc')"
    by (simp add: example_validate_patch_defs env_compile_fails_def)
  have cc: "compile env_timeout example_d4j ''Lang-1'' ?wc = (Inr (True, '''', ''''), ?wc')"
    by (simp add: example_validate_patch_defs env_timeout_def)
  have tc: "test env_timeout example_d4j ''Lang-1'' 180 ?wc' = (Inl TimeoutExpired, ?wt)"
    by (simp add: example_validate_patch_defs env_timeout_def)
  note ta = validate_patch_outcomes [OF nd mat [OF rf(1)] one coa wra]
  note tb = validate_patch_outcomes [OF nd mat [OF rf(2)] one cob wrb]
  note tc' = validate_patch_outcomes [OF nd mat [OF rf(3)] one coc wrc]
  have ra: "validate_patch example_compute_patch env_parse_error example_d4j ''Lang-1''
        (example_patch_of [''bad'']) [] =
      (Inr \<lparr> outcome = ParseError, time_cost = 6, stdout = '''', stderr = ''no'' \<rparr>,
       example_checkout_events)"
    and la: "list_all (\<lambda>ev. \<not> is_compile_or_test ev) example_checkout_events"
    using ta fa
    by (simp_all add: accepted_prefix_def recognized_error_def write_events_def
        env_parse_error_def quiet_env_def example_checkout_events_def)
  have rb: "validate_patch example_compute_patch env_compile_fails example_d4j ''Lang-1''
        (example_patch_of [''ok'']) [] =
      (Inr \<lparr> outcome = CompilationError, time_cost = 8, stdout = ''out'', stderr = ''FAIL'' \<rparr>,
       ?wc')"
    using tb fb cb web
    by (simp add: env_compile_fails_def quiet_env_def example_checkout_events_def)
  have rc: "validate_patch example_compute_patch env_timeout example_d4j ''Lang-1''
        (example_patch_of [''ok'']) [] =
      (Inr \<lparr> outcome = TestingError, time_cost = 9,
              stdout = ''----Timeout'', stderr = ''----Timeout'' \<rparr>, ?wt)"
    using tc' fc cc tc wec
    by (simp add: env_timeout_def quiet_env_def example_checkout_events_def)
  show ?thesis
    using nd mat [OF rf(1)] mat [OF rf(2)] one coa fa fb fc ra la rb rc cb cc tc
    by simp
qed

theorem parse_error_writes_witness:
  "validate_patch example_compute_patch env_parse_error example_d4j ''Lang-1''
     (example_patch_of [''ok'', ''bad'']) [] =
   (Inr \<lparr> outcome = ParseError, time_cost = 7, stdout = '''', stderr = ''no'' \<rparr>,
    checkout_events example_d4j ''Lang-1'' False
      @ write_events env_parse_error
          (take 1 (candidate_files example_compute_patch (example_patch_of [''ok'', ''bad'']))))
   \<and> recognized_error env_parse_error
        (candidate_files example_compute_patch (example_patch_of [''ok'', ''bad'']) ! 1)
       = Some ''no''
   \<and> recognized_error env_parse_error
        (candidate_files example_compute_patch (example_patch_of [''ok'', ''bad'']) ! 0)
       = None
   \<and> validate_patch example_compute_patch env_parse_error example_d4j ''Lang-1''
        (example_patch_of [''bad'']) [] =
      (Inr \<lparr> outcome = ParseError, time_cost = 6, stdout = '''', stderr = ''no'' \<rparr>,
       checkout_events example_d4j ''Lang-1'' False)
   \<and> length (file_patches (example_patch_of [''bad''])) = 1"
proof -
  have ce: "checkout_events example_d4j ''Lang-1'' False = example_checkout_events"
    by (simp add: checkout_events_def example_d4j_def example_bug_def split_bug_id_def
        d4j_checkout_cmd_def d4j_executable_def d4j_executable_of_def path_join_def
        git_reset_def git_clean_def example_checkout_events_def)
  have files: "candidate_files example_compute_patch (example_patch_of [''ok'', ''bad'']) =
      [example_text_file \<lparr> content := ''ok'' \<rparr>, example_text_file \<lparr> content := ''bad'' \<rparr>]"
    by (simp add: candidate_files_def example_patch_of_def example_candidate_def avg_def
        example_compute_patch_def)
  have we: "write_events env_parse_error [example_text_file \<lparr> content := ''ok'' \<rparr>]
      = [WriteFile ''/co/Lang-1/src/Foo.java'' ''ok'']"
    by (simp add: write_events_def write_file_def example_text_file_def env_parse_error_def
        quiet_env_def)
  have one: "length (file_patches (example_patch_of [''bad''])) = 1"
    by (simp add: example_patch_of_def example_candidate_def)
  have tw: "write_events env_parse_error
      (take 1 (candidate_files example_compute_patch (example_patch_of [''ok'', ''bad''])))
      = [WriteFile ''/co/Lang-1/src/Foo.java'' ''ok'']"
    by (simp add: files we)
  have r1: "recognized_error env_parse_error
        (candidate_files example_compute_patch (example_patch_of [''ok'', ''bad'']) ! 1)
       = Some ''no''"
    by (simp add: files recognized_error_def env_parse_error_def quiet_env_def)
  have r0: "recognized_error env_parse_error
        (candidate_files example_compute_patch (example_patch_of [''ok'', ''bad'']) ! 0)
       = None"
    by (simp add: files recognized_error_def env_parse_error_def quiet_env_def)
  show ?thesis
    using parse_error_writes [OF example_run_two_files]
      parse_error_writes [OF example_run_parse_error]
    by (simp add: example_run_two_files example_run_parse_error ce one r0
        tw [unfolded One_nat_def] r1 [unfolded One_nat_def])
qed

text \<open>
  The claim C10 as stated fails: for a candidate with two file patches of the same file,
  the first of which parses while the parser refuses the second with a syntax error,
  \<open>validate_patch\<close> returns \<open>ParseError\<close> and has written the first candidate file into
  the project directory after the checkout.
\<close>

theorem parse_error_write_counterexample:
  "validate_patch example_compute_patch env_parse_error example_d4j ''Lang-1''
     (example_patch_of [''ok'', ''bad'']) [] =
   (Inr \<lparr> outcome = ParseError, time_cost = 7, stdout = '''', stderr = ''no'' \<rparr>,
    example_checkout_events @ [WriteFile ''/co/Lang-1/src/Foo.java'' ''ok''])
   \<and> map tf_path (candidate_files example_compute_patch (example_patch_of [''ok'', ''bad'']))
       = [''/co/Lang-1/src/Foo.java'', ''/co/Lang-1/src/Foo.java'']
   \<and> javalang_parse env_parse_error ''ok'' = Parsed
   \<and> javalang_parse env_parse_error ''bad'' = JavaSyntaxError ''no''"
  by (simp add: example_run_two_files)
     (simp add: candidate_files_def example_patch_of_def example_candidate_def avg_def
        example_compute_patch_def example_text_file_def env_parse_error_def quiet_env_def)

end
